theory Spec2Isabelle
  imports Complex_Main "HOL-Library.Log_Nat" "HOL-Library.Multiset"
begin

section \<open>The Python values the program works on\<close>

text \<open>
  The program is \<^verbatim>\<open>src/pdf_to_excel_comparer.py\<close>. Its strings are Python \<^verbatim>\<open>str\<close>
  values. A \<^typ>\<open>char\<close> of the model stands for one code point below 256 (Latin-1), so the
  model covers the strings made of these code points. On this range the character classes of
  Python are finite tables, written out below: \<^verbatim>\<open>str.isspace\<close>, which is also the class
  \<^verbatim>\<open>\s\<close> of \<^verbatim>\<open>re\<close> and what \<^verbatim>\<open>str.strip()\<close> removes; the class \<^verbatim>\<open>\d\<close>;
  and \<^verbatim>\<open>str.lower\<close>.
\<close>

definition codepoint :: "char \<Rightarrow> nat" where
  "codepoint c = of_char c"

definition is_space :: "char \<Rightarrow> bool" where
  "is_space c = (let n = codepoint c in
     (9 \<le> n \<and> n \<le> 13) \<or> (28 \<le> n \<and> n \<le> 32) \<or> n = 133 \<or> n = 160)"

definition is_digit :: "char \<Rightarrow> bool" where
  "is_digit c = (let n = codepoint c in 48 \<le> n \<and> n \<le> 57)"

definition is_ascii_letter :: "char \<Rightarrow> bool" where
  "is_ascii_letter c = (let n = codepoint c in
     (65 \<le> n \<and> n \<le> 90) \<or> (97 \<le> n \<and> n \<le> 122))"

definition is_upper :: "char \<Rightarrow> bool" where
  "is_upper c = (let n = codepoint c in
     (65 \<le> n \<and> n \<le> 90) \<or> (192 \<le> n \<and> n \<le> 222 \<and> n \<noteq> 215))"

definition lower_char :: "char \<Rightarrow> char" where
  "lower_char c = (if is_upper c then char_of (codepoint c + 32) else c)"

text \<open>\<^verbatim>\<open>s.lower()\<close>, \<^verbatim>\<open>s.strip()\<close> and \<^verbatim>\<open>s.replace(",", "")\<close>.\<close>

definition lower :: "string \<Rightarrow> string" where
  "lower s = map lower_char s"

definition strip :: "string \<Rightarrow> string" where
  "strip s = rev (dropWhile is_space (rev (dropWhile is_space s)))"

definition remove_commas :: "string \<Rightarrow> string" where
  "remove_commas s = filter (\<lambda>c. c \<noteq> CHR '','') s"

text \<open>\<^verbatim>\<open>sub in s\<close> on strings: \<open>sub\<close> occurs in \<open>s\<close> as a contiguous run.\<close>

fun contains :: "string \<Rightarrow> string \<Rightarrow> bool" where
  "contains sub [] = (sub = [])"
| "contains sub (c # cs) = (take (length sub) (c # cs) = sub \<or> contains sub cs)"

text \<open>\<^verbatim>\<open>s.endswith(suffix)\<close>.\<close>

definition endswith :: "string \<Rightarrow> string \<Rightarrow> bool" where
  "endswith s suffix = (length suffix \<le> length s \<and> drop (length s - length suffix) s = suffix)"

text \<open>The exceptions the modelled code can raise.\<close>

datatype error = ValueError | OverflowError | KeyError string | ReadError

section \<open>Numbers\<close>

text \<open>
  A Python \<^verbatim>\<open>float\<close> is an IEEE 754 double: a finite value, which is a rational number,
  an infinity, or a NaN. The sign of zero is not kept: \<^verbatim>\<open>-0.0 == 0.0\<close> holds and
  \<^verbatim>\<open>int(-0.0)\<close> is \<^verbatim>\<open>0\<close>, and the program only compares floats and converts them.
\<close>

datatype pyfloat = Finite rat | PosInf | NegInf | NaN

definition pow2 :: "int \<Rightarrow> rat" where
  "pow2 k = (if 0 \<le> k then 2 ^ nat k else 1 / 2 ^ nat (- k))"

definition pow10 :: "int \<Rightarrow> rat" where
  "pow10 k = (if 0 \<le> k then 10 ^ nat k else 1 / 10 ^ nat (- k))"

text \<open>For \<open>a > 0\<close>: the integer \<open>e\<close> with \<open>2 ^ e \<le> a < 2 ^ (e + 1)\<close>.\<close>

definition floor_log2 :: "rat \<Rightarrow> int" where
  "floor_log2 a = (let (p, q) = quotient_of a; k = bitlen p - bitlen q
                   in if pow2 k \<le> a then k else k - 1)"

definition round_half_even :: "rat \<Rightarrow> int" where
  "round_half_even q = (let f = \<lfloor>q\<rfloor>; d = q - of_int f
     in if d < 1 / 2 then f else if 1 / 2 < d then f + 1 else if even f then f else f + 1)"

text \<open>
  Rounding of an exact value to the nearest double, ties to even: 53 bits of precision,
  subnormals below \<open>2 ^ (-1022)\<close>, overflow to an infinity from \<open>2 ^ 1024 - 2 ^ 970\<close> on.
\<close>

definition round_double :: "rat \<Rightarrow> pyfloat" where
  "round_double r = (if r = 0 then Finite 0 else
     let a = \<bar>r\<bar>;
         e = max (floor_log2 a) (- 1022);
         ulp = pow2 (e - 52);
         v = of_int (round_half_even (a / ulp)) * ulp
     in if pow2 1024 \<le> v then (if r < 0 then NegInf else PosInf)
        else Finite (if r < 0 then - v else v))"

text \<open>
  \<^verbatim>\<open>float(s)\<close> on a string. CPython turns the non-ASCII whitespace into blanks and strips
  the ASCII whitespace at both ends (so the code points 28 to 31, which \<^verbatim>\<open>str.strip\<close>
  removes, are not skipped here); an underscore must stand between two digits; what is left
  is a sign and \<^verbatim>\<open>inf\<close>, \<^verbatim>\<open>infinity\<close> or \<^verbatim>\<open>nan\<close> in any case, or a decimal
  numeral with an optional fraction and exponent, rounded correctly. Anything else raises
  \<^verbatim>\<open>ValueError\<close>.
\<close>

definition is_float_space :: "char \<Rightarrow> bool" where
  "is_float_space c = (let n = codepoint c in
     (9 \<le> n \<and> n \<le> 13) \<or> n = 32 \<or> n = 133 \<or> n = 160)"

definition float_strip :: "string \<Rightarrow> string" where
  "float_strip s = rev (dropWhile is_float_space (rev (dropWhile is_float_space s)))"

fun underscores_ok :: "char \<Rightarrow> string \<Rightarrow> bool" where
  "underscores_ok prev [] = (prev \<noteq> CHR ''_'')"
| "underscores_ok prev (c # cs) =
     (if c = CHR ''_'' then is_digit prev \<and> underscores_ok c cs
      else (prev = CHR ''_'' \<longrightarrow> is_digit c) \<and> underscores_ok c cs)"

definition digits_value :: "string \<Rightarrow> nat" where
  "digits_value ds = foldl (\<lambda>a c. 10 * a + (codepoint c - 48)) 0 ds"

definition parse_sign :: "string \<Rightarrow> bool \<times> string" where
  "parse_sign s = (case s of
       [] \<Rightarrow> (False, [])
     | c # cs \<Rightarrow> if c = CHR ''-'' then (True, cs) else if c = CHR ''+'' then (False, cs)
                else (False, s))"

definition parse_exponent :: "string \<Rightarrow> int option" where
  "parse_exponent s = (case s of
       [] \<Rightarrow> Some 0
     | c # cs \<Rightarrow>
         if c = CHR ''e'' \<or> c = CHR ''E'' then
           (let (neg, ds) = parse_sign cs
            in if ds \<noteq> [] \<and> list_all is_digit ds
               then Some (if neg then - int (digits_value ds) else int (digits_value ds))
               else None)
         else None)"

definition parse_float_body :: "string \<Rightarrow> error + pyfloat" where
  "parse_float_body s =
     (let (neg, r) = parse_sign s in
      if lower r = ''inf'' \<or> lower r = ''infinity'' then Inr (if neg then NegInf else PosInf)
      else if lower r = ''nan'' then Inr NaN
      else
        let ip = takeWhile is_digit r;
            r1 = dropWhile is_digit r;
            (fp, r2) = (case r1 of
                          [] \<Rightarrow> ([], [])
                        | c # cs \<Rightarrow> if c = CHR ''.''
                                    then (takeWhile is_digit cs, dropWhile is_digit cs)
                                    else ([], r1))
        in if ip = [] \<and> fp = [] then Inl ValueError
           else (case parse_exponent r2 of
                   None \<Rightarrow> Inl ValueError
                 | Some ex \<Rightarrow>
                     let m = of_nat (digits_value (ip @ fp)) * pow10 (ex - int (length fp))
                     in Inr (round_double (if neg then - m else m))))"

definition py_float :: "string \<Rightarrow> error + pyfloat" where
  "py_float s =
     (let t = float_strip s in
      if underscores_ok (CHR 0x00) t
      then parse_float_body (filter (\<lambda>c. c \<noteq> CHR ''_'') t)
      else Inl ValueError)"

text \<open>
  \<^verbatim>\<open>int(x)\<close> on a float truncates towards zero; it raises \<^verbatim>\<open>OverflowError\<close> on an
  infinity and \<^verbatim>\<open>ValueError\<close> on a NaN.
\<close>

definition int_of_float :: "pyfloat \<Rightarrow> error + int" where
  "int_of_float x = (case x of
       Finite r \<Rightarrow> Inr (if 0 \<le> r then \<lfloor>r\<rfloor> else \<lceil>r\<rceil>)
     | PosInf \<Rightarrow> Inl OverflowError
     | NegInf \<Rightarrow> Inl OverflowError
     | NaN \<Rightarrow> Inl ValueError)"

text \<open>
  \<^verbatim>\<open>float(n)\<close> on an int rounds to the nearest double and raises \<^verbatim>\<open>OverflowError\<close>
  when the int is too large.
\<close>

definition float_of_int :: "int \<Rightarrow> error + pyfloat" where
  "float_of_int n = (case round_double (of_int n) of
       Finite r \<Rightarrow> Inr (Finite r)
     | _ \<Rightarrow> Inl OverflowError)"

text \<open>\<^verbatim>\<open>x == y\<close> on floats: a NaN equals nothing, itself included.\<close>

definition float_eq :: "pyfloat \<Rightarrow> pyfloat \<Rightarrow> bool" where
  "float_eq x y = (x \<noteq> NaN \<and> x = y)"

section \<open>String normalization\<close>

text \<open>
  \<^verbatim>\<open>normalize_string(s) = re.sub(r'[^a-zA-Z0-9\s]', '', s).strip().lower()\<close>:
  \<open>keep_char\<close> is the class \<^verbatim>\<open>[a-zA-Z0-9\s]\<close>, whose complement the substitution deletes.
\<close>

definition keep_char :: "char \<Rightarrow> bool" where
  "keep_char c = (is_ascii_letter c \<or> is_digit c \<or> is_space c)"

definition normalize_string :: "string \<Rightarrow> string" where
  "normalize_string s = lower (strip (filter keep_char s))"


section \<open>Cleaning the rows of the PDF tables\<close>

text \<open>
  A cell of an extracted table is a string or \<^verbatim>\<open>None\<close>. The idiom
  \<^verbatim>\<open>row[i].strip() if row[i] else ""\<close> gives the stripped text of a cell, and the empty
  string for \<^verbatim>\<open>None\<close> and for the empty string.
\<close>

type_synonym cell = "string option"

definition cell_text :: "cell \<Rightarrow> string" where
  "cell_text c = (case c of None \<Rightarrow> [] | Some s \<Rightarrow> if s = [] then [] else strip s)"

text \<open>
  The pieces of the pattern \<^verbatim>\<open>^\d{8}\s+Subscription\s+#\d{7}:\s+\<close>: each consumes a
  prefix of the text and returns the rest, or fails. After a greedy \<^verbatim>\<open>\s+\<close> the
  pattern goes on with a character that is no whitespace, so giving back whitespace never
  helps and the longest run is the only candidate.
\<close>

definition match_digits :: "nat \<Rightarrow> string \<Rightarrow> string option" where
  "match_digits n s =
     (if n \<le> length s \<and> list_all is_digit (take n s) then Some (drop n s) else None)"

definition match_spaces1 :: "string \<Rightarrow> string option" where
  "match_spaces1 s = (case s of
       [] \<Rightarrow> None
     | c # cs \<Rightarrow> if is_space c then Some (dropWhile is_space cs) else None)"

definition match_literal :: "string \<Rightarrow> string \<Rightarrow> string option" where
  "match_literal lit s =
     (if take (length lit) s = lit then Some (drop (length lit) s) else None)"

text \<open>
  \<^verbatim>\<open>re.sub(r"^\d{8}\s+Subscription\s+#\d{7}:\s+", "", original_description)\<close>: the
  pattern is anchored at the start, so at most the prefix is removed.
\<close>

definition clean_description :: "string \<Rightarrow> string" where
  "clean_description s =
     (case Option.bind (Option.bind (Option.bind (Option.bind (Option.bind (Option.bind
             (Option.bind (match_digits 8 s) match_spaces1)
             (match_literal ''Subscription'')) match_spaces1)
             (match_literal ''#'')) (match_digits 7))
             (match_literal '':'')) match_spaces1 of
        None \<Rightarrow> s
      | Some rest \<Rightarrow> rest)"

text \<open>
  \<^verbatim>\<open>re.sub(r"^\d{10}\s*|[\n\r]+", " ", original_customer)\<close>: every match is replaced
  by one blank. The first alternative can match at the start only; everywhere else each
  longest run of line breaks is a match.
\<close>

definition is_newline :: "char \<Rightarrow> bool" where
  "is_newline c = (codepoint c = 10 \<or> codepoint c = 13)"

function collapse_newlines :: "string \<Rightarrow> string" where
  "collapse_newlines [] = []"
| "collapse_newlines (c # cs) =
     (if is_newline c then CHR '' '' # collapse_newlines (dropWhile is_newline cs)
      else c # collapse_newlines cs)"
  by pat_completeness auto
termination
  by (relation "measure length") (auto simp: less_Suc_eq_le length_dropWhile_le)

definition clean_customer :: "string \<Rightarrow> string" where
  "clean_customer s =
     (if 10 \<le> length s \<and> list_all is_digit (take 10 s)
      then CHR '' '' # collapse_newlines (dropWhile is_space (drop 10 s))
      else collapse_newlines s)"

text \<open>The dictionary that \<^verbatim>\<open>extract_pdf\<close> builds for one row.\<close>

record pdf_record =
  Number :: cell
  End_Customer :: string
  Description :: string
  Net_Unit_Price :: pyfloat
  Qty :: int
  Total_Amount :: pyfloat
  SO_PO_Number :: string

text \<open>
  The quantity of cell 8. After \<^verbatim>\<open>re.sub(r"[^\d.]", "", original_qty)\<close> only digits and
  dots are left, and \<^verbatim>\<open>int(float(cleaned_qty)) if cleaned_qty else 0\<close> follows.
\<close>

definition cleaned_qty_text :: "cell \<Rightarrow> string" where
  "cleaned_qty_text c = filter (\<lambda>x. is_digit x \<or> x = CHR ''.'') (cell_text c)"

definition clean_qty :: "cell \<Rightarrow> error + int" where
  "clean_qty c =
     (let cleaned_qty = cleaned_qty_text c
      in if cleaned_qty \<noteq> []
         then (case py_float cleaned_qty of Inl e \<Rightarrow> Inl e | Inr x \<Rightarrow> int_of_float x)
         else Inr 0)"

text \<open>
  The int so obtained goes through \<^verbatim>\<open>cleaned_qty if cleaned_qty else "0"\<close>, which
  turns the int 0 into the string \<^verbatim>\<open>"0"\<close>, and the value of \<^verbatim>\<open>"Qty"\<close> is
  \<^verbatim>\<open>int(float(cleaned_qty))\<close> of the result.
\<close>

definition qty_value :: "int \<Rightarrow> error + int" where
  "qty_value cleaned_qty =
     (case (if cleaned_qty \<noteq> 0 then float_of_int cleaned_qty else py_float ''0'') of
        Inl e \<Rightarrow> Inl e
      | Inr x \<Rightarrow> int_of_float x)"

text \<open>
  The unit price of cell 9 and the total of cell 10:
  \<^verbatim>\<open>row[i].strip() if row[i] and row[i].strip() else "0.00"\<close>, then
  \<^verbatim>\<open>float(t.replace(",", ""))\<close>.
\<close>

definition clean_amount :: "cell \<Rightarrow> error + pyfloat" where
  "clean_amount c =
     (let t = (if cell_text c \<noteq> [] then cell_text c else ''0.00'')
      in py_float (remove_commas t))"

text \<open>
  The body of the loop over the rows, for a row of at least 11 cells. The quantity is
  converted first, then the price, then the total, and the value of \<^verbatim>\<open>"Qty"\<close> is
  computed while the dictionary is built; the first of them to fail decides the exception.
\<close>

definition clean_row :: "cell list \<Rightarrow> error + pdf_record" where
  "clean_row row =
     (let cleaned_description = clean_description (cell_text (row ! 4));
          cleaned_customer = clean_customer (cell_text (row ! 1))
      in case clean_qty (row ! 8) of
           Inl e \<Rightarrow> Inl e
         | Inr cleaned_qty \<Rightarrow>
        (case clean_amount (row ! 9) of
           Inl e \<Rightarrow> Inl e
         | Inr cleaned_price \<Rightarrow>
        (case clean_amount (row ! 10) of
           Inl e \<Rightarrow> Inl e
         | Inr cleaned_total_amount \<Rightarrow>
        (case qty_value cleaned_qty of
           Inl e \<Rightarrow> Inl e
         | Inr qty \<Rightarrow>
             Inr \<lparr>Number = row ! 0,
                  End_Customer = cleaned_customer,
                  Description = cleaned_description,
                  Net_Unit_Price = cleaned_price,
                  Qty = qty,
                  Total_Amount = cleaned_total_amount,
                  SO_PO_Number = cell_text (row ! 5)\<rparr>))))"

text \<open>
  \<^verbatim>\<open>extract_pdf\<close>: a page gives \<^verbatim>\<open>None\<close> or a table, a list of rows. An empty table
  is skipped, the first row of a table is the header, and a row of fewer than 11 cells is
  skipped.
\<close>

fun extract_rows :: "cell list list \<Rightarrow> pdf_record list \<Rightarrow> error + pdf_record list" where
  "extract_rows [] pdf_data = Inr pdf_data"
| "extract_rows (row # data_rows) pdf_data =
     (if 11 \<le> length row
      then (case clean_row row of
              Inl e \<Rightarrow> Inl e
            | Inr r \<Rightarrow> extract_rows data_rows (pdf_data @ [r]))
      else extract_rows data_rows pdf_data)"

fun extract_pages :: "cell list list option list \<Rightarrow> pdf_record list \<Rightarrow> error + pdf_record list"
  where
  "extract_pages [] pdf_data = Inr pdf_data"
| "extract_pages (page # pages) pdf_data =
     (case page of
        None \<Rightarrow> extract_pages pages pdf_data
      | Some table \<Rightarrow>
          if table = [] then extract_pages pages pdf_data
          else (case extract_rows (tl table) pdf_data of
                  Inl e \<Rightarrow> Inl e
                | Inr pdf_data' \<Rightarrow> extract_pages pages pdf_data'))"

definition extract_pdf :: "cell list list option list \<Rightarrow> error + pdf_record list" where
  "extract_pdf pages = extract_pages pages []"

section \<open>Choosing the CSV file of a company\<close>

text \<open>
  \<^verbatim>\<open>fuzz.ratio\<close> belongs to the library \<^verbatim>\<open>rapidfuzz\<close>, not to this program. The
  model takes it as the parameter \<open>ratio\<close>, a function from two strings to a number, and
  every property below holds for every such function.

  \<^verbatim>\<open>os.path.splitext(filename)[0]\<close> for a name without a directory separator, as
  \<^verbatim>\<open>os.listdir\<close> returns it: the name up to its last dot, or the whole name when it has
  no dot or only dots come before the last one.
\<close>

definition splitext_base :: "string \<Rightarrow> string" where
  "splitext_base p =
     (case dropWhile (\<lambda>c. c \<noteq> CHR ''.'') (rev p) of
        [] \<Rightarrow> p
      | _ # base_rev \<Rightarrow> if list_all (\<lambda>c. c = CHR ''.'') base_rev then p else rev base_rev)"

text \<open>\<^verbatim>\<open>os.path.join(a, b)\<close> of \<^verbatim>\<open>posixpath\<close> for two components.\<close>

definition path_join :: "string \<Rightarrow> string \<Rightarrow> string" where
  "path_join a b =
     (if b \<noteq> [] \<and> hd b = CHR ''/'' then b
      else if a = [] \<or> last a = CHR ''/'' then a @ b
      else a @ ''/'' @ b)"

text \<open>
  \<^verbatim>\<open>re.sub(r"\s*\d+$", "", s)\<close>: the digits at the end and the whitespace before them
  are removed. \<^verbatim>\<open>$\<close> also matches before a line feed that ends the string.
\<close>

definition strip_number_suffix :: "string \<Rightarrow> string" where
  "strip_number_suffix t =
     (if takeWhile is_digit (rev t) = [] then t
      else rev (dropWhile is_space (dropWhile is_digit (rev t))))"

definition sub_trailing_number :: "string \<Rightarrow> string" where
  "sub_trailing_number s =
     (if s \<noteq> [] \<and> last s = CHR 0x0A then strip_number_suffix (butlast s) @ [CHR 0x0A]
      else strip_number_suffix s)"

text \<open>
  The loop of \<^verbatim>\<open>find_matching_csv_files\<close> over \<^verbatim>\<open>os.listdir(csv_directory)\<close>, with
  the list \<open>matching_files\<close> it appends to. An exact match returns at once; at the end of
  the listing \<^verbatim>\<open>matching_files[:1]\<close> is returned.
\<close>

fun find_matching_loop ::
  "(string \<Rightarrow> string \<Rightarrow> rat) \<Rightarrow> string \<Rightarrow> string \<Rightarrow> string list \<Rightarrow> string list \<Rightarrow> string list"
  where
  "find_matching_loop ratio normalized_company_name csv_directory [] matching_files =
     take 1 matching_files"
| "find_matching_loop ratio normalized_company_name csv_directory (filename # rest)
     matching_files =
     (if endswith filename ''.csv'' then
        (let normalized_filename = normalize_string (splitext_base filename) in
         if normalized_company_name = normalized_filename
         then [path_join csv_directory filename]
         else
           let base_without_number = sub_trailing_number normalized_filename in
           if 80 < ratio normalized_company_name normalized_filename
              \<or> 80 < ratio normalized_company_name base_without_number
           then find_matching_loop ratio normalized_company_name csv_directory rest
                  (matching_files @ [path_join csv_directory filename])
           else find_matching_loop ratio normalized_company_name csv_directory rest
                  matching_files)
      else find_matching_loop ratio normalized_company_name csv_directory rest matching_files)"

definition find_matching_csv_files ::
  "(string \<Rightarrow> string \<Rightarrow> rat) \<Rightarrow> string \<Rightarrow> string \<Rightarrow> string list \<Rightarrow> string list" where
  "find_matching_csv_files ratio company_name csv_directory listing =
     find_matching_loop ratio (normalize_string company_name) csv_directory listing []"

section \<open>Loading the CSV rows\<close>

text \<open>
  A row that \<^verbatim>\<open>csv.DictReader\<close> yields is a dictionary from column labels to strings;
  the model covers the rows in which every label and every value is a string.
  A dictionary keeps its keys in insertion order, and the program depends on that order, so
  a dictionary is a list of pairs; storing under a key that is present replaces the value
  in place.

  The directory of CSV files is outside the program: \<open>listdir\<close> is what
  \<^verbatim>\<open>os.listdir(csv_directory)\<close> returns, and \<open>read_csv path\<close> is the list of rows that
  \<^verbatim>\<open>load_csv_data\<close> reads from the file at \<open>path\<close> (with the labels stripped), or the
  exception raised while reading.
\<close>

type_synonym csv_row = "(string \<times> string) list"

record csv_store =
  csv_directory :: string
  listdir :: "string list"
  read_csv :: "string \<Rightarrow> error + csv_row list"

fun load_csv_loop ::
  "(string \<Rightarrow> error + csv_row list) \<Rightarrow> string list \<Rightarrow> csv_row list \<Rightarrow> error + csv_row list"
  where
  "load_csv_loop rd [] csv_data = Inr csv_data"
| "load_csv_loop rd (file_path # csv_file_paths) csv_data =
     (case rd file_path of
        Inl e \<Rightarrow> Inl e
      | Inr rows \<Rightarrow> load_csv_loop rd csv_file_paths (csv_data @ rows))"

definition load_csv_data ::
  "(string \<Rightarrow> error + csv_row list) \<Rightarrow> string list \<Rightarrow> error + csv_row list" where
  "load_csv_data rd csv_file_paths = load_csv_loop rd csv_file_paths []"

definition extract_matching_csv_data ::
  "(string \<Rightarrow> string \<Rightarrow> rat) \<Rightarrow> csv_store \<Rightarrow> string \<Rightarrow> error + csv_row list" where
  "extract_matching_csv_data ratio store company_name =
     (let matching_files =
            find_matching_csv_files ratio company_name (csv_directory store) (listdir store)
      in if length matching_files = 1 then load_csv_data (read_csv store) matching_files
         else Inr [])"

section \<open>Matching one PDF record against CSV rows\<close>

fun dict_set :: "'k \<Rightarrow> 'v \<Rightarrow> ('k \<times> 'v) list \<Rightarrow> ('k \<times> 'v) list" where
  "dict_set k v [] = [(k, v)]"
| "dict_set k v ((k', v') # d) =
     (if k' = k then (k', v) # d else (k', v') # dict_set k v d)"

definition dict_get :: "('k \<times> 'v) list \<Rightarrow> 'k \<Rightarrow> 'v \<Rightarrow> 'v" where
  "dict_get d k dflt = (case map_of d k of None \<Rightarrow> dflt | Some v \<Rightarrow> v)"

text \<open>\<^verbatim>\<open>{key.strip(): value for key, value in row.items()}\<close>.\<close>

definition strip_keys :: "csv_row \<Rightarrow> csv_row" where
  "strip_keys row = foldl (\<lambda>d (key, v). dict_set (strip key) v d) [] row"

text \<open>\<^verbatim>\<open>next((col for col in row.keys() if sub in col.lower()), None)\<close>.\<close>

definition find_column :: "string \<Rightarrow> csv_row \<Rightarrow> string option" where
  "find_column sub row = find (\<lambda>col. contains sub (lower col)) (map fst row)"

text \<open>
  The texts of the cost and of the quantity of a row whose keys are stripped:
  \<^verbatim>\<open>row.get(column, "0").replace(",", "") if column else "0"\<close>.
\<close>

definition csv_cost_text :: "csv_row \<Rightarrow> string" where
  "csv_cost_text row = (case find_column ''cost'' row of
       None \<Rightarrow> ''0''
     | Some cost_column \<Rightarrow> remove_commas (dict_get row cost_column ''0''))"

definition csv_qty_text :: "csv_row \<Rightarrow> string" where
  "csv_qty_text row = (case find_column ''quantity'' row of
       None \<Rightarrow> ''0''
     | Some qty_column \<Rightarrow> remove_commas (dict_get row qty_column ''0''))"

definition selected_fields :: "string list" where
  "selected_fields = [''Description'', ''Unit Cost'', ''Total Quantity'', ''Agreement Name'']"

record match =
  data :: csv_row
  relevance :: rat

text \<open>
  The body of the loop of \<^verbatim>\<open>find_matching_additions\<close> for one CSV row: the exception it
  raises, or the match it appends, if any. \<^verbatim>\<open>int(float(csv_qty))\<close> is evaluated first,
  then \<^verbatim>\<open>float(csv_cost)\<close> in the test. \<^verbatim>\<open>agreement_name\<close> is read and never
  used. The line
  \<^verbatim>\<open>pdf_cost_cleaned = float(str(pdf_cost).replace(",", ""))\<close> has no part in the model:
  its result is never used, and the text of a float always converts back.
\<close>

definition match_row ::
  "(string \<Rightarrow> string \<Rightarrow> rat) \<Rightarrow> pdf_record \<Rightarrow> csv_row \<Rightarrow> error + match option" where
  "match_row ratio pdf_record raw_row =
     (let pdf_description = normalize_string (Description pdf_record);
          pdf_cost = Net_Unit_Price pdf_record;
          pdf_qty = Qty pdf_record;
          row = strip_keys raw_row;
          csv_description =
            normalize_string (dict_get row ''Description'' ''No Description Found'')
      in case py_float (csv_qty_text row) of
           Inl e \<Rightarrow> Inl e
         | Inr q \<Rightarrow>
        (case int_of_float q of
           Inl e \<Rightarrow> Inl e
         | Inr csv_qty \<Rightarrow>
        (case py_float (csv_cost_text row) of
           Inl e \<Rightarrow> Inl e
         | Inr csv_cost \<Rightarrow>
             if float_eq csv_cost pdf_cost \<and> csv_qty = pdf_qty
             then Inr (Some \<lparr>data = filter (\<lambda>(key, v). key \<in> set selected_fields) row,
                             relevance = ratio pdf_description csv_description\<rparr>)
             else Inr None)))"

fun matching_loop ::
  "(string \<Rightarrow> string \<Rightarrow> rat) \<Rightarrow> pdf_record \<Rightarrow> csv_row list \<Rightarrow> match list \<Rightarrow> error + match list"
  where
  "matching_loop ratio pdf_record [] matches = Inr matches"
| "matching_loop ratio pdf_record (row # csv_data) matches =
     (case match_row ratio pdf_record row of
        Inl e \<Rightarrow> Inl e
      | Inr None \<Rightarrow> matching_loop ratio pdf_record csv_data matches
      | Inr (Some m) \<Rightarrow> matching_loop ratio pdf_record csv_data (matches @ [m]))"

text \<open>
  \<^verbatim>\<open>sorted(matches, key=lambda x: x["relevance"], reverse=True)\<close>. Python's sort is
  stable, and with \<^verbatim>\<open>reverse=True\<close> CPython reverses the list, sorts it stably in
  ascending order and reverses the result. \<open>sort_key\<close> is a stable insertion sort.
\<close>

definition sorted_reverse :: "match list \<Rightarrow> match list" where
  "sorted_reverse matches = rev (sort_key relevance (rev matches))"

definition find_matching_additions ::
  "(string \<Rightarrow> string \<Rightarrow> rat) \<Rightarrow> pdf_record \<Rightarrow> csv_row list \<Rightarrow> error + match list" where
  "find_matching_additions ratio pdf_record csv_data =
     (case matching_loop ratio pdf_record csv_data [] of
        Inl e \<Rightarrow> Inl e
      | Inr matches \<Rightarrow> Inr (sorted_reverse matches))"

section \<open>The two entry points\<close>

text \<open>
  \<^verbatim>\<open>get_pdf_matches\<close> pairs every PDF record with its matches, each match rewritten
  as \<^verbatim>\<open>{"score": m["relevance"], "data": m["data"]}\<close>. The pages of the PDF and the
  directory of CSV files are the inputs.
\<close>

record scored_match =
  score :: rat
  match_data :: csv_row

record entry =
  pdf :: pdf_record
  matches :: "scored_match list"

fun get_pdf_matches_loop ::
  "(string \<Rightarrow> string \<Rightarrow> rat) \<Rightarrow> csv_store \<Rightarrow> pdf_record list \<Rightarrow> entry list \<Rightarrow> error + entry list"
  where
  "get_pdf_matches_loop ratio store [] result = Inr result"
| "get_pdf_matches_loop ratio store (pdf_record # pdf_data) result =
     (case extract_matching_csv_data ratio store (End_Customer pdf_record) of
        Inl e \<Rightarrow> Inl e
      | Inr csv_data \<Rightarrow>
          (case find_matching_additions ratio pdf_record csv_data of
             Inl e \<Rightarrow> Inl e
           | Inr ms \<Rightarrow>
               get_pdf_matches_loop ratio store pdf_data
                 (result @ [\<lparr>pdf = pdf_record,
                              matches = map (\<lambda>m. \<lparr>score = relevance m, match_data = data m\<rparr>) ms\<rparr>])))"

definition get_pdf_matches ::
  "(string \<Rightarrow> string \<Rightarrow> rat) \<Rightarrow> cell list list option list \<Rightarrow> csv_store \<Rightarrow> error + entry list"
  where
  "get_pdf_matches ratio pages store =
     (case extract_pdf pages of
        Inl e \<Rightarrow> Inl e
      | Inr pdf_data \<Rightarrow> get_pdf_matches_loop ratio store pdf_data [])"

text \<open>\<^verbatim>\<open>find_unmatched_pdf_records\<close> keeps the records for which no match is found.\<close>

fun find_unmatched_loop ::
  "(string \<Rightarrow> string \<Rightarrow> rat) \<Rightarrow> csv_store \<Rightarrow> pdf_record list \<Rightarrow> pdf_record list
     \<Rightarrow> error + pdf_record list"
  where
  "find_unmatched_loop ratio store [] unmatched_records = Inr unmatched_records"
| "find_unmatched_loop ratio store (record # pdf_data) unmatched_records =
     (case extract_matching_csv_data ratio store (End_Customer record) of
        Inl e \<Rightarrow> Inl e
      | Inr csv_data \<Rightarrow>
          (case find_matching_additions ratio record csv_data of
             Inl e \<Rightarrow> Inl e
           | Inr matching_records \<Rightarrow>
               if matching_records = []
               then find_unmatched_loop ratio store pdf_data (unmatched_records @ [record])
               else find_unmatched_loop ratio store pdf_data unmatched_records))"

definition find_unmatched_pdf_records ::
  "(string \<Rightarrow> string \<Rightarrow> rat) \<Rightarrow> cell list list option list \<Rightarrow> csv_store
     \<Rightarrow> error + pdf_record list"
  where
  "find_unmatched_pdf_records ratio pages store =
     (case extract_pdf pages of
        Inl e \<Rightarrow> Inl e
      | Inr pdf_data \<Rightarrow> find_unmatched_loop ratio store pdf_data [])"

section \<open>Writing the report\<close>

text \<open>
  The script at the end of the file writes the header and then the rows, through
  \<^verbatim>\<open>csv.writer\<close>. A row is the list of values handed to \<^verbatim>\<open>writer.writerow\<close>: a
  string, \<^verbatim>\<open>None\<close>, an int, a float, or the number that \<^verbatim>\<open>fuzz.ratio\<close> returned.
  The result is the list of the rows written, the header first, or the exception raised
  on the way.
\<close>

datatype pyval = PNone | PStr string | PInt int | PFloat pyfloat | PNum rat

definition headers :: "string list" where
  "headers = [''Number'', ''End-Customer'', ''Description'', ''Qty'', ''Net Unit Price'',
              ''Total Amount'', ''SO/PO Number'', ''Match Description'', ''Match Cost'',
              ''Match Quantity'', ''Agreement Name'', ''Match Score'']"

definition cell_value :: "cell \<Rightarrow> pyval" where
  "cell_value c = (case c of None \<Rightarrow> PNone | Some s \<Rightarrow> PStr s)"

definition pdf_values :: "pdf_record \<Rightarrow> pyval list" where
  "pdf_values p =
     [cell_value (Number p), PStr (End_Customer p), PStr (Description p), PInt (Qty p),
      PFloat (Net_Unit_Price p), PFloat (Total_Amount p), PStr (SO_PO_Number p)]"

text \<open>\<^verbatim>\<open>d[key]\<close> raises \<^verbatim>\<open>KeyError\<close> when the key is missing.\<close>

definition dict_item :: "csv_row \<Rightarrow> string \<Rightarrow> error + string" where
  "dict_item d key = (case map_of d key of None \<Rightarrow> Inl (KeyError key) | Some v \<Rightarrow> Inr v)"

definition matched_row :: "pdf_record \<Rightarrow> scored_match \<Rightarrow> error + pyval list" where
  "matched_row p m =
     (case dict_item (match_data m) ''Description'' of
        Inl e \<Rightarrow> Inl e
      | Inr d \<Rightarrow>
     (case dict_item (match_data m) ''Unit Cost'' of
        Inl e \<Rightarrow> Inl e
      | Inr c \<Rightarrow>
     (case dict_item (match_data m) ''Total Quantity'' of
        Inl e \<Rightarrow> Inl e
      | Inr q \<Rightarrow>
     (case dict_item (match_data m) ''Agreement Name'' of
        Inl e \<Rightarrow> Inl e
      | Inr a \<Rightarrow> Inr (pdf_values p @ [PStr d, PStr c, PStr q, PStr a, PNum (score m)])))))"

definition unmatched_row :: "pdf_record \<Rightarrow> pyval list" where
  "unmatched_row p = pdf_values p @ [PStr [], PStr [], PStr [], PStr []]"

fun write_matches ::
  "pdf_record \<Rightarrow> scored_match list \<Rightarrow> pyval list list \<Rightarrow> error + pyval list list" where
  "write_matches p [] written = Inr written"
| "write_matches p (m # matches_for_record) written =
     (case matched_row p m of
        Inl e \<Rightarrow> Inl e
      | Inr row \<Rightarrow> write_matches p matches_for_record (written @ [row]))"

fun write_loop :: "entry list \<Rightarrow> cell set \<Rightarrow> pyval list list \<Rightarrow> error + pyval list list" where
  "write_loop [] seen_numbers written = Inr written"
| "write_loop (e # es) seen_numbers written =
     (let number = Number (pdf e) in
      if number \<in> seen_numbers then write_loop es seen_numbers written
      else if matches e \<noteq> []
      then (case write_matches (pdf e) (matches e) written of
              Inl err \<Rightarrow> Inl err
            | Inr written' \<Rightarrow> write_loop es (insert number seen_numbers) written')
      else write_loop es (insert number seen_numbers) (written @ [unmatched_row (pdf e)]))"

definition write_report :: "entry list \<Rightarrow> error + pyval list list" where
  "write_report es = write_loop es {} [map PStr headers]"

definition reconcile ::
  "(string \<Rightarrow> string \<Rightarrow> rat) \<Rightarrow> cell list list option list \<Rightarrow> csv_store
     \<Rightarrow> error + pyval list list"
  where
  "reconcile ratio pages store =
     (case get_pdf_matches ratio pages store of
        Inl e \<Rightarrow> Inl e
      | Inr es \<Rightarrow> write_report es)"

section \<open>Notions used to state the properties\<close>

text \<open>
  The matches of the rows that pass the test of \<^verbatim>\<open>find_matching_additions\<close>, in the
  order in which the rows are met: the list \<^verbatim>\<open>matches\<close> before it is sorted.
\<close>

definition candidates_in_order ::
  "(string \<Rightarrow> string \<Rightarrow> rat) \<Rightarrow> pdf_record \<Rightarrow> csv_row list \<Rightarrow> match list" where
  "candidates_in_order ratio pdf_record csv_data =
     concat (map (\<lambda>row. case match_row ratio pdf_record row of
                           Inr (Some m) \<Rightarrow> [m]
                         | _ \<Rightarrow> []) csv_data)"

text \<open>
  A file of the listing is an exact match of a company name when it is a CSV file and its
  normalized base name is the normalized company name.
\<close>

definition exact_match :: "string \<Rightarrow> string \<Rightarrow> bool" where
  "exact_match company_name filename =
     (endswith filename ''.csv''
      \<and> normalize_string company_name = normalize_string (splitext_base filename))"

text \<open>
  What both entry points compute for one record: the rows of the CSV file chosen for its
  customer, and the matches of the record among them.
\<close>

definition matches_of_record ::
  "(string \<Rightarrow> string \<Rightarrow> rat) \<Rightarrow> csv_store \<Rightarrow> pdf_record \<Rightarrow> error + match list" where
  "matches_of_record ratio store record =
     (case extract_matching_csv_data ratio store (End_Customer record) of
        Inl e \<Rightarrow> Inl e
      | Inr csv_data \<Rightarrow> find_matching_additions ratio record csv_data)"

text \<open>The rows that the report loop writes for one entry that it does not skip.\<close>

definition entry_rows :: "entry \<Rightarrow> error + pyval list list" where
  "entry_rows e =
     (if matches e \<noteq> [] then write_matches (pdf e) (matches e) []
      else Inr [unmatched_row (pdf e)])"

section \<open>Sample inputs\<close>

text \<open>
  The row of the scenario of the specification, and the record that the code makes of it.
\<close>

definition scenario_row :: "cell list" where
  "scenario_row = [Some ''1001'', Some ''9876543210 Acme Corp'', Some '''', Some '''',
     Some ''20180101 Subscription #1234567: Widget Pro'', Some ''PO-55'', Some '''', Some '''',
     Some ''10'', Some ''25.00'', Some ''250.00'']"

definition scenario_record :: pdf_record where
  "scenario_record = \<lparr>Number = Some ''1001'', End_Customer = '' Acme Corp'',
     Description = ''Widget Pro'', Net_Unit_Price = Finite 25, Qty = 10,
     Total_Amount = Finite 250, SO_PO_Number = ''PO-55''\<rparr>"

text \<open>A row whose quantity cell is no number, and a row whose numeric cells are blank.\<close>

definition bad_quantity_row :: "cell list" where
  "bad_quantity_row = [Some ''1001'', Some ''Acme Corp'', Some '''', Some '''',
     Some ''Widget Pro'', Some ''PO-55'', Some '''', Some '''',
     Some ''1.2.3'', Some ''25.00'', Some ''250.00'']"

definition blank_row :: "cell list" where
  "blank_row = [Some ''1002'', Some ''Beta'', None, None, Some ''Thing'', None, None, None,
     None, Some ''  '', Some '''']"

definition blank_record :: pdf_record where
  "blank_record = \<lparr>Number = Some ''1002'', End_Customer = ''Beta'', Description = ''Thing'',
     Net_Unit_Price = Finite 0, Qty = 0, Total_Amount = Finite 0, SO_PO_Number = []\<rparr>"

text \<open>
  A second row with the identifier of \<open>blank_row\<close> and another content, its record, and
  two matches.
\<close>

definition duplicate_row :: "cell list" where
  "duplicate_row = [Some ''1002'', Some ''Gamma'', None, None, Some ''Other'', None, None, None,
     None, None, None]"

definition later_duplicate :: pdf_record where
  "later_duplicate = \<lparr>Number = Some ''1002'', End_Customer = ''Gamma'', Description = ''Other'',
     Net_Unit_Price = Finite 0, Qty = 0, Total_Amount = Finite 0, SO_PO_Number = []\<rparr>"

definition full_match :: scored_match where
  "full_match = \<lparr>score = 100,
     match_data = [(''Description'', ''Other''), (''Unit Cost'', ''0''),
                   (''Total Quantity'', ''0''), (''Agreement Name'', ''A1'')]\<rparr>"

definition half_match :: scored_match where
  "half_match = \<lparr>score = 50,
     match_data = [(''Description'', ''Thing''), (''Unit Cost'', ''0.00''),
                   (''Total Quantity'', ''0''), (''Agreement Name'', ''A2'')]\<rparr>"

text \<open>
  CSV rows: with the cost and the quantity of the scenario record, with another cost, with
  a quantity that has a fraction, with other descriptions, and without a label for the cost
  or the quantity.
\<close>

definition equal_row :: csv_row where
  "equal_row = [(''Description'', ''Widget Pro''), (''Unit Cost'', ''25.00''),
     (''Total Quantity'', ''10'')]"

definition costlier_row :: csv_row where
  "costlier_row = [(''Description'', ''Widget Pro''), (''Unit Cost'', ''26''),
     (''Total Quantity'', ''10'')]"

definition fraction_row :: csv_row where
  "fraction_row = [(''Description'', ''Widget Pro''), (''Unit Cost'', ''25.00''),
     (''Total Quantity'', ''10.5'')]"

definition widget_row :: csv_row where
  "widget_row = [(''Description'', ''Widget''), (''Unit Cost'', ''25.00''),
     (''Total Quantity'', ''10'')]"

definition gadget_row :: csv_row where
  "gadget_row = [(''Description'', ''Gadget''), (''Unit Cost'', ''25.00''),
     (''Total Quantity'', ''10'')]"

definition unlabelled_row :: csv_row where
  "unlabelled_row = [(''Description'', ''Thing''), (''Agreement Name'', ''A1'')]"

text \<open>
  A scoring function to run the examples with: 100 for equal strings, 50 for others. A
  listing of a directory, and a directory without files.
\<close>

definition equal_or_half :: "string \<Rightarrow> string \<Rightarrow> rat" where
  "equal_or_half a b = (if a = b then 100 else 50)"

definition sample_listing :: "string list" where
  "sample_listing = [''notes.txt'', ''Acme Corp 2.csv'', ''ACME corp!.csv'', ''Acme Corp.csv'']"

definition empty_store :: csv_store where
  "empty_store = \<lparr>csv_directory = ''data'', listdir = [], read_csv = (\<lambda>p. Inl ReadError)\<rparr>"

section \<open>Properties of the normalization\<close>

lemma codepoint_lower_char:
  "codepoint (lower_char c) = (if is_upper c then codepoint c + 32 else codepoint c)"
proof (cases "is_upper c")
  case True
  then have "codepoint c + 32 < 256" by (auto simp: is_upper_def Let_def)
  then have "of_char (char_of (codepoint c + 32)) = codepoint c + 32"
    by (simp only: of_char_of mod_less)
  with True show ?thesis by (simp only: lower_char_def codepoint_def if_True)
next
  case False
  then show ?thesis by (simp only: lower_char_def if_False)
qed

lemma is_space_lower_char [simp]: "is_space (lower_char c) = is_space c"
  unfolding is_space_def codepoint_lower_char Let_def is_upper_def
  by (cases "is_upper c") (simp_all add: is_upper_def Let_def, arith+)

lemma is_upper_lower_char [simp]: "\<not> is_upper (lower_char c)"
  by (auto simp: is_upper_def codepoint_lower_char Let_def)

lemma lower_char_idem [simp]: "lower_char (lower_char c) = lower_char c"
  using is_upper_lower_char [of c] by (simp add: lower_char_def del: is_upper_lower_char)

lemma keep_lower_char: "keep_char c \<Longrightarrow> keep_char (lower_char c)"
  by (auto simp: keep_char_def is_ascii_letter_def is_digit_def codepoint_lower_char Let_def
      is_upper_def)

lemma dropWhile_space_lower:
  "dropWhile is_space (map lower_char s) = map lower_char (dropWhile is_space s)"
  by (induction s) auto

lemma strip_lower: "strip (lower s) = lower (strip s)"
  by (simp add: strip_def lower_def dropWhile_space_lower rev_map)

lemma dropWhile_rev_dropWhile:
  assumes "xs = [] \<or> \<not> P (hd xs)"
  shows "dropWhile P (rev (dropWhile P (rev xs))) = rev (dropWhile P (rev xs))"
proof (cases "dropWhile P (rev xs)")
  case Nil
  then show ?thesis by (simp only: rev.simps dropWhile.simps)
next
  case (Cons y ys)
  then have ne: "xs \<noteq> []" by auto
  with assms have h: "\<not> P (hd xs)" by simp
  have "rev xs = takeWhile P (rev xs) @ y # ys"
    using Cons by (metis takeWhile_dropWhile_id)
  then have "xs = rev (y # ys) @ rev (takeWhile P (rev xs))"
    by (metis rev_append rev_rev_ident)
  then have "hd xs = hd (rev (y # ys))"
    by (metis hd_append2 rev_is_Nil_conv list.distinct(1))
  with h have "\<not> P (hd (rev (y # ys)))" by simp
  then have "dropWhile P (rev (y # ys)) = rev (y # ys)"
    by (cases "rev (y # ys)") simp_all
  with Cons show ?thesis by simp
qed

lemma strip_idem: "strip (strip s) = strip s"
proof -
  let ?t = "dropWhile is_space s"
  have t: "?t = [] \<or> \<not> is_space (hd ?t)"
    using hd_dropWhile [of is_space s] by blast
  have a: "dropWhile is_space (rev (dropWhile is_space (rev ?t)))
         = rev (dropWhile is_space (rev ?t))"
    using t by (rule dropWhile_rev_dropWhile)
  have b: "dropWhile is_space (dropWhile is_space (rev ?t)) = dropWhile is_space (rev ?t)"
    by (rule dropWhile_idem)
  show ?thesis unfolding strip_def a rev_rev_ident b ..
qed

lemma set_strip: "set (strip s) \<subseteq> set s"
proof
  fix c assume "c \<in> set (strip s)"
  then have "c \<in> set (dropWhile is_space (rev (dropWhile is_space s)))"
    by (simp add: strip_def)
  then have "c \<in> set (rev (dropWhile is_space s))" by (rule set_dropWhileD)
  then have "c \<in> set (dropWhile is_space s)" by simp
  then show "c \<in> set s" by (rule set_dropWhileD)
qed

lemma filter_keep_lower:
  "\<forall>c\<in>set u. keep_char c \<Longrightarrow> filter keep_char (map lower_char u) = map lower_char u"
  by (induction u) (simp_all add: keep_lower_char)

text \<open>
  Claim C9. Normalizing is idempotent: for every string \<open>s\<close>, normalizing the normalized
  string gives the normalized string again.
\<close>

theorem normalize_string_idempotent:
  "normalize_string (normalize_string s) = normalize_string s"
proof -
  let ?u = "strip (filter keep_char s)"
  have k: "\<forall>c\<in>set ?u. keep_char c"
    using set_strip [of "filter keep_char s"] by auto
  have 1: "filter keep_char (lower ?u) = lower ?u"
    unfolding lower_def using k by (rule filter_keep_lower)
  have 2: "strip (lower ?u) = lower ?u"
    by (simp only: strip_lower strip_idem)
  have 3: "lower (lower ?u) = lower ?u"
    by (simp add: lower_def)
  have n: "normalize_string s = lower ?u"
    by (simp only: normalize_string_def)
  have "normalize_string (lower ?u) = lower (strip (filter keep_char (lower ?u)))"
    by (simp only: normalize_string_def)
  also have "\<dots> = lower ?u" by (simp only: 1 2 3)
  finally show ?thesis by (simp only: n)
qed

section \<open>Evaluating the conversions on literals\<close>

lemmas char_defs = codepoint_def is_space_def is_digit_def is_float_space_def is_upper_def
  lower_char_def lower_def is_ascii_letter_def is_newline_def keep_char_def
lemmas float_defs = py_float_def float_strip_def parse_float_body_def parse_sign_def
  parse_exponent_def digits_value_def pow10_def

lemma py_float_0: "py_float ''0'' = Inr (Finite 0)"
  by (simp add: float_defs char_defs Let_def round_double_def)

lemma py_float_000: "py_float ''0.00'' = Inr (Finite 0)"
  by (simp add: float_defs char_defs Let_def round_double_def)

lemma int_of_float_0: "int_of_float (Finite 0) = Inr 0"
  by (simp add: int_of_float_def)

lemma qty_value_0: "qty_value 0 = Inr 0"
  by (simp add: qty_value_def py_float_0 int_of_float_0)

lemma eq_char_of_iff: "c = char_of (n::nat) \<longleftrightarrow> take_bit 8 n = of_char c"
  using char_of_eq_iff [of n c] by auto

lemma round_double_10: "round_double 10 = Finite 10"
proof -
  have "floor_log2 10 = 3" by (simp add: floor_log2_def pow2_def compute_bitlen)
  then show ?thesis by (simp add: round_double_def round_half_even_def pow2_def Let_def)
qed

lemma round_double_25: "round_double 25 = Finite 25"
proof -
  have "floor_log2 25 = 4" by (simp add: floor_log2_def pow2_def compute_bitlen)
  then show ?thesis by (simp add: round_double_def round_half_even_def pow2_def Let_def)
qed

lemma round_double_26: "round_double 26 = Finite 26"
proof -
  have "floor_log2 26 = 4" by (simp add: floor_log2_def pow2_def compute_bitlen)
  then show ?thesis by (simp add: round_double_def round_half_even_def pow2_def Let_def)
qed

lemma round_double_250: "round_double 250 = Finite 250"
proof -
  have "floor_log2 250 = 7" by (simp add: floor_log2_def pow2_def compute_bitlen)
  then show ?thesis by (simp add: round_double_def round_half_even_def pow2_def Let_def)
qed

lemma py_float_10: "py_float ''10'' = Inr (Finite 10)"
  by (simp add: float_defs char_defs Let_def round_double_10)

lemma py_float_26: "py_float ''26'' = Inr (Finite 26)"
  by (simp add: float_defs char_defs Let_def round_double_26)

lemma py_float_2500: "py_float ''25.00'' = Inr (Finite 25)"
  by (simp add: float_defs char_defs Let_def round_double_25)

lemma py_float_25000: "py_float ''250.00'' = Inr (Finite 250)"
  by (simp add: float_defs char_defs Let_def round_double_250)

lemma py_float_123: "py_float ''1.2.3'' = Inl ValueError"
  by (simp add: float_defs char_defs Let_def)

lemma int_of_float_10: "int_of_float (Finite 10) = Inr 10"
  by (simp add: int_of_float_def)

lemma quotient_of_21_2: "quotient_of (21 / 2) = (21, 2)"
proof -
  have e: "(21::rat) / 2 = Fract 21 2" by (simp add: Fract_of_int_quotient)
  have "quotient_of (Fract 21 2) = (21, 2)" by (simp add: quotient_of_Fract Rat.normalize_def)
  then show ?thesis by (simp only: e)
qed

lemma round_double_21_2: "round_double (21 / 2) = Finite (21 / 2)"
proof -
  have "floor_log2 (21 / 2) = 3"
    by (simp add: floor_log2_def quotient_of_21_2 pow2_def compute_bitlen)
  then show ?thesis by (simp add: round_double_def round_half_even_def pow2_def Let_def)
qed

lemma py_float_105: "py_float ''10.5'' = Inr (Finite (21 / 2))"
proof -
  have "(105::rat) / 10 = 21 / 2" by simp
  then show ?thesis
    by (simp add: float_defs char_defs Let_def round_double_21_2)
qed

lemma int_of_float_21_2: "int_of_float (Finite (21 / 2)) = Inr 10"
proof -
  have "\<lfloor>(21::rat) / 2\<rfloor> = 10" by (simp add: floor_divide_of_int_eq [of 21 2, simplified])
  then show ?thesis by (simp add: int_of_float_def)
qed

lemmas row_defs = strip_keys_def find_column_def csv_cost_text_def csv_qty_text_def
  dict_get_def remove_commas_def strip_def selected_fields_def

lemmas file_defs = eq_char_of_iff endswith_def splitext_base_def normalize_string_def strip_def
  sub_trailing_number_def strip_number_suffix_def path_join_def exact_match_def


section \<open>Properties of the matcher\<close>

lemma matching_loop_append:
  "matching_loop ratio p (xs @ ys) acc =
     (case matching_loop ratio p xs acc of
        Inl e \<Rightarrow> Inl e
      | Inr acc' \<Rightarrow> matching_loop ratio p ys acc')"
  by (induction xs arbitrary: acc) (simp_all split: sum.splits option.splits)

lemma matching_loop_result:
  "matching_loop ratio p rows acc = Inr ms \<Longrightarrow> ms = acc @ candidates_in_order ratio p rows"
proof (induction rows arbitrary: acc)
  case Nil
  then show ?case by (simp add: candidates_in_order_def)
next
  case (Cons row rows)
  show ?case
  proof (cases "match_row ratio p row")
    case (Inl e)
    with Cons.prems show ?thesis by simp
  next
    case (Inr r)
    show ?thesis
    proof (cases r)
      case None
      with Inr Cons.prems have "matching_loop ratio p rows acc = Inr ms" by simp
      from Cons.IH [OF this] Inr None show ?thesis by (simp add: candidates_in_order_def)
    next
      case (Some m)
      with Inr Cons.prems have "matching_loop ratio p rows (acc @ [m]) = Inr ms" by simp
      from Cons.IH [OF this] Inr Some show ?thesis by (simp add: candidates_in_order_def)
    qed
  qed
qed

lemma find_matching_additions_result:
  assumes "find_matching_additions ratio p rows = Inr cands"
  shows "cands = sorted_reverse (candidates_in_order ratio p rows)"
proof -
  from assms obtain ms where ms: "matching_loop ratio p rows [] = Inr ms"
    and c: "cands = sorted_reverse ms"
    by (auto simp: find_matching_additions_def split: sum.splits)
  from matching_loop_result [OF ms] c show ?thesis by simp
qed

lemma sorted_reverse_descending:
  "sorted_wrt (\<lambda>a b. relevance b \<le> relevance a) (sorted_reverse ms)"
proof -
  have "sorted (map relevance (sort_key relevance (rev ms)))" by (rule sorted_sort_key)
  then have "sorted_wrt (\<lambda>a b. relevance a \<le> relevance b) (sort_key relevance (rev ms))"
    by (simp add: sorted_map)
  then show ?thesis by (simp add: sorted_reverse_def sorted_wrt_rev)
qed

lemma sorted_reverse_stable:
  "filter (\<lambda>c. relevance c = v) (sorted_reverse ms) = filter (\<lambda>c. relevance c = v) ms"
proof -
  have "filter (\<lambda>c. relevance c = v) (sorted_reverse ms)
      = rev (filter (\<lambda>c. relevance c = v) (sort_key relevance (rev ms)))"
    by (simp add: sorted_reverse_def rev_filter)
  also have "\<dots> = rev (filter (\<lambda>c. relevance c = v) (rev ms))"
    by (simp only: sort_key_stable)
  also have "\<dots> = filter (\<lambda>c. relevance c = v) ms"
    by (simp add: rev_filter)
  finally show ?thesis .
qed

lemma mset_sorted_reverse: "mset (sorted_reverse ms) = mset ms"
  by (simp add: sorted_reverse_def)

text \<open>
  Claim C5. When \<^verbatim>\<open>find_matching_additions\<close> returns, the candidates are non-increasing
  in relevance; the candidates of any one relevance are in the order in which their rows
  were met; and the candidates are exactly the matches of the rows that pass the test, each
  as often as it occurs, so no qualifying row is left out.
\<close>

theorem ranking_stability:
  assumes "find_matching_additions ratio pdf_record csv_data = Inr candidates"
  shows "sorted_wrt (\<lambda>a b. relevance b \<le> relevance a) candidates
       \<and> (\<forall>v. filter (\<lambda>c. relevance c = v) candidates
              = filter (\<lambda>c. relevance c = v) (candidates_in_order ratio pdf_record csv_data))
       \<and> mset candidates = mset (candidates_in_order ratio pdf_record csv_data)"
  using find_matching_additions_result [OF assms]
  by (simp add: sorted_reverse_descending sorted_reverse_stable mset_sorted_reverse)

lemma equal_row_texts:
  "csv_cost_text (strip_keys equal_row) = ''25.00''"
  "csv_qty_text (strip_keys equal_row) = ''10''"
  "filter (\<lambda>(key, v). key \<in> set selected_fields) (strip_keys equal_row) = equal_row"
  by (simp_all add: equal_row_def row_defs char_defs char_of_eq_iff)

lemma costlier_row_texts:
  "csv_cost_text (strip_keys costlier_row) = ''26''"
  "csv_qty_text (strip_keys costlier_row) = ''10''"
  by (simp_all add: costlier_row_def row_defs char_defs char_of_eq_iff)

lemma widget_row_texts:
  "csv_cost_text (strip_keys widget_row) = ''25.00''"
  "csv_qty_text (strip_keys widget_row) = ''10''"
  "filter (\<lambda>(key, v). key \<in> set selected_fields) (strip_keys widget_row) = widget_row"
  "dict_get (strip_keys widget_row) ''Description'' ''No Description Found'' = ''Widget''"
  by (simp_all add: widget_row_def row_defs char_defs char_of_eq_iff)

lemma gadget_row_texts:
  "csv_cost_text (strip_keys gadget_row) = ''25.00''"
  "csv_qty_text (strip_keys gadget_row) = ''10''"
  "filter (\<lambda>(key, v). key \<in> set selected_fields) (strip_keys gadget_row) = gadget_row"
  "dict_get (strip_keys gadget_row) ''Description'' ''No Description Found'' = ''Gadget''"
  by (simp_all add: gadget_row_def row_defs char_defs char_of_eq_iff)

lemma equal_row_description:
  "dict_get (strip_keys equal_row) ''Description'' ''No Description Found'' = ''Widget Pro''"
  by (simp add: equal_row_def row_defs char_defs char_of_eq_iff)

lemma normalized_descriptions:
  "normalize_string ''Widget Pro'' = ''widget pro''"
  "normalize_string ''Widget'' = ''widget''"
  "normalize_string ''Gadget'' = ''gadget''"
  by (simp_all add: normalize_string_def strip_def char_defs char_of_eq_iff)

lemma match_rows_half:
  "match_row equal_or_half scenario_record widget_row
     = Inr (Some \<lparr>data = widget_row, relevance = 50\<rparr>)"
  "match_row equal_or_half scenario_record equal_row
     = Inr (Some \<lparr>data = equal_row, relevance = 100\<rparr>)"
  "match_row equal_or_half scenario_record gadget_row
     = Inr (Some \<lparr>data = gadget_row, relevance = 50\<rparr>)"
  "match_row equal_or_half scenario_record costlier_row = Inr None"
  by (simp_all add: match_row_def Let_def equal_row_texts widget_row_texts gadget_row_texts
      costlier_row_texts equal_row_description normalized_descriptions py_float_10
      py_float_2500 py_float_26 int_of_float_10 float_eq_def scenario_record_def
      equal_or_half_def)

text \<open>
  Claim C5 on four rows: the row of relevance 100 comes first, the two rows of relevance 50
  keep their order, and the row with another cost is absent.
\<close>

theorem ranking_stability_witness:
  "find_matching_additions equal_or_half scenario_record
       [widget_row, costlier_row, equal_row, gadget_row]
     = Inr [\<lparr>data = equal_row, relevance = 100\<rparr>, \<lparr>data = widget_row, relevance = 50\<rparr>,
            \<lparr>data = gadget_row, relevance = 50\<rparr>]
   \<and> candidates_in_order equal_or_half scenario_record
       [widget_row, costlier_row, equal_row, gadget_row]
     = [\<lparr>data = widget_row, relevance = 50\<rparr>, \<lparr>data = equal_row, relevance = 100\<rparr>,
        \<lparr>data = gadget_row, relevance = 50\<rparr>]
   \<and> filter (\<lambda>c. relevance c = 50)
        [\<lparr>data = equal_row, relevance = 100\<rparr>, \<lparr>data = widget_row, relevance = 50\<rparr>,
         \<lparr>data = gadget_row, relevance = 50\<rparr>]
     = [\<lparr>data = widget_row, relevance = 50\<rparr>, \<lparr>data = gadget_row, relevance = 50\<rparr>]"
proof -
  have res: "find_matching_additions equal_or_half scenario_record
       [widget_row, costlier_row, equal_row, gadget_row]
     = Inr [\<lparr>data = equal_row, relevance = 100\<rparr>, \<lparr>data = widget_row, relevance = 50\<rparr>,
            \<lparr>data = gadget_row, relevance = 50\<rparr>]"
    by (simp add: find_matching_additions_def match_rows_half sorted_reverse_def)
  have order: "candidates_in_order equal_or_half scenario_record
       [widget_row, costlier_row, equal_row, gadget_row]
     = [\<lparr>data = widget_row, relevance = 50\<rparr>, \<lparr>data = equal_row, relevance = 100\<rparr>,
        \<lparr>data = gadget_row, relevance = 50\<rparr>]"
    by (simp add: candidates_in_order_def match_rows_half)
  from ranking_stability [OF res]
  have "filter (\<lambda>c. relevance c = 50)
        [\<lparr>data = equal_row, relevance = 100\<rparr>, \<lparr>data = widget_row, relevance = 50\<rparr>,
         \<lparr>data = gadget_row, relevance = 50\<rparr>]
     = filter (\<lambda>c. relevance c = 50) (candidates_in_order equal_or_half scenario_record
         [widget_row, costlier_row, equal_row, gadget_row])" by blast
  with res order show ?thesis by simp
qed

lemma match_row_gate:
  assumes "py_float (csv_cost_text (strip_keys row)) = Inr cost"
      and "py_float (csv_qty_text (strip_keys row)) = Inr q"
      and "int_of_float q = Inr qty"
      and "\<not> float_eq cost (Net_Unit_Price p) \<or> qty \<noteq> Qty p"
  shows "match_row ratio p row = Inr None"
  using assms by (auto simp: match_row_def Let_def)

lemma match_row_Some:
  assumes "match_row ratio p row = Inr (Some m)"
  shows "\<exists>cost q. py_float (csv_cost_text (strip_keys row)) = Inr cost
           \<and> py_float (csv_qty_text (strip_keys row)) = Inr q
           \<and> int_of_float q = Inr (Qty p)
           \<and> float_eq cost (Net_Unit_Price p)"
  using assms by (auto simp: match_row_def Let_def split: sum.splits if_splits)

lemma candidates_in_order_sources:
  "m \<in> set (candidates_in_order ratio p rows) \<Longrightarrow>
     \<exists>row\<in>set rows. match_row ratio p row = Inr (Some m)"
  by (auto simp: candidates_in_order_def split: sum.splits option.splits)

text \<open>
  Claim C1, amended. The quantity of a row is compared after \<^verbatim>\<open>int(float(...))\<close>, that
  is, truncated towards zero. A row whose cost, as a float, is not equal to the unit price
  of the record, or whose truncated quantity is not the quantity of the record, adds
  nothing to the candidates, whatever \<open>ratio\<close> says of the descriptions: the result is the
  same as without the row, and every candidate comes from a row whose cost and truncated
  quantity are equal to those of the record.
\<close>

theorem gate_exactness:
  assumes res: "find_matching_additions ratio pdf_record (before @ row # after) = Inr candidates"
      and cost: "py_float (csv_cost_text (strip_keys row)) = Inr cost"
      and q: "py_float (csv_qty_text (strip_keys row)) = Inr q"
      and qty: "int_of_float q = Inr qty"
      and differs: "\<not> float_eq cost (Net_Unit_Price pdf_record) \<or> qty \<noteq> Qty pdf_record"
  shows "find_matching_additions ratio pdf_record (before @ after) = Inr candidates
       \<and> (\<forall>c\<in>set candidates. \<exists>r\<in>set (before @ after). \<exists>rcost rq.
              match_row ratio pdf_record r = Inr (Some c)
            \<and> py_float (csv_cost_text (strip_keys r)) = Inr rcost
            \<and> float_eq rcost (Net_Unit_Price pdf_record)
            \<and> py_float (csv_qty_text (strip_keys r)) = Inr rq
            \<and> int_of_float rq = Inr (Qty pdf_record))"
proof -
  have none: "match_row ratio pdf_record row = Inr None"
    using cost q qty differs by (rule match_row_gate)
  have same: "matching_loop ratio pdf_record (before @ row # after) []
            = matching_loop ratio pdf_record (before @ after) []"
    by (simp add: matching_loop_append none split: sum.splits)
  then have 1: "find_matching_additions ratio pdf_record (before @ after) = Inr candidates"
    using res by (simp add: find_matching_additions_def)
  have "set candidates = set (candidates_in_order ratio pdf_record (before @ after))"
    using find_matching_additions_result [OF 1] by (simp add: sorted_reverse_def)
  then have 2: "\<forall>c\<in>set candidates. \<exists>r\<in>set (before @ after).
      match_row ratio pdf_record r = Inr (Some c)"
    using candidates_in_order_sources by blast
  show ?thesis
  proof (intro conjI ballI)
    show "find_matching_additions ratio pdf_record (before @ after) = Inr candidates" by (rule 1)
  next
    fix c assume "c \<in> set candidates"
    with 2 obtain r where r: "r \<in> set (before @ after)"
      and m: "match_row ratio pdf_record r = Inr (Some c)" by blast
    from match_row_Some [OF m] obtain rcost rq where
      "py_float (csv_cost_text (strip_keys r)) = Inr rcost"
      "py_float (csv_qty_text (strip_keys r)) = Inr rq"
      "int_of_float rq = Inr (Qty pdf_record)"
      "float_eq rcost (Net_Unit_Price pdf_record)" by blast
    with r m show "\<exists>r\<in>set (before @ after). \<exists>rcost rq.
              match_row ratio pdf_record r = Inr (Some c)
            \<and> py_float (csv_cost_text (strip_keys r)) = Inr rcost
            \<and> float_eq rcost (Net_Unit_Price pdf_record)
            \<and> py_float (csv_qty_text (strip_keys r)) = Inr rq
            \<and> int_of_float rq = Inr (Qty pdf_record)" by blast
  qed
qed

lemma match_equal_row:
  "match_row (\<lambda>a b. 100) scenario_record equal_row
     = Inr (Some \<lparr>data = equal_row, relevance = 100\<rparr>)"
  by (simp add: match_row_def Let_def equal_row_texts py_float_10 py_float_2500
      int_of_float_10 float_eq_def scenario_record_def)

lemma match_costlier_row:
  "match_row (\<lambda>a b. 100) scenario_record costlier_row = Inr None"
  by (simp add: match_row_def Let_def costlier_row_texts py_float_10 py_float_26
      int_of_float_10 float_eq_def scenario_record_def)

text \<open>
  Claim C1 on two rows with the description of the record, scored 100: the row whose cost
  is 26 against a unit price of 25 is left out.
\<close>

theorem gate_exactness_witness:
  "py_float (csv_cost_text (strip_keys costlier_row)) = Inr (Finite 26)
   \<and> \<not> float_eq (Finite 26) (Net_Unit_Price scenario_record)
   \<and> find_matching_additions (\<lambda>a b. 100) scenario_record [costlier_row, equal_row]
       = Inr [\<lparr>data = equal_row, relevance = 100\<rparr>]
   \<and> find_matching_additions (\<lambda>a b. 100) scenario_record [equal_row]
       = Inr [\<lparr>data = equal_row, relevance = 100\<rparr>]"
proof -
  have res: "find_matching_additions (\<lambda>a b. 100) scenario_record ([] @ costlier_row # [equal_row])
       = Inr [\<lparr>data = equal_row, relevance = 100\<rparr>]"
    by (simp add: find_matching_additions_def match_equal_row match_costlier_row
        sorted_reverse_def)
  have cost: "py_float (csv_cost_text (strip_keys costlier_row)) = Inr (Finite 26)"
    by (simp add: costlier_row_texts py_float_26)
  have q: "py_float (csv_qty_text (strip_keys costlier_row)) = Inr (Finite 10)"
    by (simp add: costlier_row_texts py_float_10)
  have differs: "\<not> float_eq (Finite 26) (Net_Unit_Price scenario_record) \<or> 10 \<noteq> Qty scenario_record"
    by (simp add: float_eq_def scenario_record_def)
  from gate_exactness [OF res cost q int_of_float_10 differs]
  have "find_matching_additions (\<lambda>a b. 100) scenario_record ([] @ [equal_row])
       = Inr [\<lparr>data = equal_row, relevance = 100\<rparr>]" by blast
  with res cost show ?thesis by (simp add: float_eq_def scenario_record_def)
qed

lemma fraction_row_texts:
  "csv_cost_text (strip_keys fraction_row) = ''25.00''"
  "csv_qty_text (strip_keys fraction_row) = ''10.5''"
  "filter (\<lambda>(key, v). key \<in> set selected_fields) (strip_keys fraction_row) = fraction_row"
  by (simp_all add: fraction_row_def row_defs char_defs char_of_eq_iff)

text \<open>
  Claim C1 as it is written fails: the quantity \<^verbatim>\<open>10.5\<close> of a row differs from the
  quantity 10 of the record by a half, and the row is a candidate all the same, since
  \<^verbatim>\<open>int(float("10.5"))\<close> is 10.
\<close>

theorem fractional_quantity_is_candidate:
  "py_float (csv_qty_text (strip_keys fraction_row)) = Inr (Finite (21 / 2))
   \<and> Qty scenario_record = 10
   \<and> (21 / 2 :: rat) \<noteq> 10
   \<and> find_matching_additions (\<lambda>a b. 100) scenario_record [fraction_row]
       = Inr [\<lparr>data = fraction_row, relevance = 100\<rparr>]"
proof -
  have m: "match_row (\<lambda>a b. 100) scenario_record fraction_row
         = Inr (Some \<lparr>data = fraction_row, relevance = 100\<rparr>)"
    by (simp add: match_row_def Let_def fraction_row_texts py_float_105 py_float_2500
        int_of_float_21_2 float_eq_def scenario_record_def)
  have "find_matching_additions (\<lambda>a b. 100) scenario_record [fraction_row]
       = Inr [\<lparr>data = fraction_row, relevance = 100\<rparr>]"
    by (simp add: find_matching_additions_def m sorted_reverse_def)
  then show ?thesis
    by (simp add: fraction_row_texts py_float_105 scenario_record_def)
qed

lemma take_prefix_append:
  assumes "take (length sub) xs = sub"
  shows "take (length sub) (xs @ b) = sub"
proof -
  have "length (take (length sub) xs) = length sub" using assms by simp
  then have "length sub \<le> length xs" by simp
  then show ?thesis using assms by simp
qed

lemma contains_append_right: "contains sub m \<Longrightarrow> contains sub (m @ b)"
proof (induction m)
  case Nil
  then show ?case by (cases b) simp_all
next
  case (Cons c cs)
  from Cons.prems have "take (length sub) (c # cs) = sub \<or> contains sub cs" by simp
  then show ?case
  proof
    assume "take (length sub) (c # cs) = sub"
    then have "take (length sub) ((c # cs) @ b) = sub" by (rule take_prefix_append)
    then show ?thesis by simp
  next
    assume "contains sub cs"
    then have "contains sub (cs @ b)" by (rule Cons.IH)
    then show ?thesis by simp
  qed
qed

lemma contains_append_left: "contains sub m \<Longrightarrow> contains sub (a @ m)"
proof (induction a)
  case Nil
  then show ?case by simp
next
  case (Cons c a)
  then show ?case by simp
qed

lemma strip_inside: "\<exists>a b. s = a @ strip s @ b"
proof -
  let ?t = "dropWhile is_space s"
  have 1: "s = takeWhile is_space s @ ?t" by simp
  have "rev ?t = takeWhile is_space (rev ?t) @ dropWhile is_space (rev ?t)" by simp
  then have "?t = rev (dropWhile is_space (rev ?t)) @ rev (takeWhile is_space (rev ?t))"
    by (metis rev_append rev_rev_ident)
  then have 2: "?t = strip s @ rev (takeWhile is_space (rev ?t))"
    by (simp only: strip_def)
  from 1 2 have "s = takeWhile is_space s @ strip s @ rev (takeWhile is_space (rev ?t))"
    by metis
  then show ?thesis by blast
qed

lemma contains_lower_strip:
  assumes "contains sub (lower (strip s))"
  shows "contains sub (lower s)"
proof -
  from strip_inside [of s] obtain a b where s: "s = a @ strip s @ b" by blast
  have "lower s = lower a @ lower (strip s) @ lower b"
    by (subst s) (simp add: lower_def)
  with assms show ?thesis
    by (simp add: contains_append_left contains_append_right)
qed

lemma keys_dict_set: "set (map fst (dict_set k v d)) = insert k (set (map fst d))"
proof (induction d)
  case Nil
  show ?case by simp
next
  case (Cons kv d)
  obtain k' v' where kv: "kv = (k', v')" by (cases kv)
  show ?case
  proof (cases "k' = k")
    case True
    then show ?thesis by (simp add: kv insert_absorb)
  next
    case False
    then show ?thesis using Cons.IH by (simp add: kv insert_commute)
  qed
qed

lemma keys_foldl_strip:
  "set (map fst (foldl (\<lambda>d (key, v). dict_set (strip key) v d) acc row))
     = set (map fst acc) \<union> set (map (\<lambda>kv. strip (fst kv)) row)"
proof (induction row arbitrary: acc)
  case Nil
  show ?case by simp
next
  case (Cons kv row)
  obtain key v where kv: "kv = (key, v)" by (cases kv)
  have "set (map fst (foldl (\<lambda>d (key, v). dict_set (strip key) v d) acc (kv # row)))
      = set (map fst (dict_set (strip key) v acc)) \<union> set (map (\<lambda>kv. strip (fst kv)) row)"
    by (simp only: foldl_Cons kv prod.case Cons.IH)
  also have "\<dots> = set (map fst acc) \<union> set (map (\<lambda>kv. strip (fst kv)) (kv # row))"
    by (simp only: keys_dict_set kv list.map fst_conv list.set) blast
  finally show ?case .
qed

lemma keys_strip_keys: "set (map fst (strip_keys row)) = set (map (\<lambda>kv. strip (fst kv)) row)"
  unfolding strip_keys_def keys_foldl_strip by simp

lemma find_column_None:
  assumes "\<forall>label\<in>fst ` set row. \<not> contains sub (lower label)"
  shows "find_column sub (strip_keys row) = None"
proof -
  have "\<forall>col\<in>set (map fst (strip_keys row)). \<not> contains sub (lower col)"
  proof
    fix col assume "col \<in> set (map fst (strip_keys row))"
    then have "col \<in> set (map (\<lambda>kv. strip (fst kv)) row)" by (simp only: keys_strip_keys)
    then obtain label where l: "label \<in> fst ` set row" and c: "col = strip label" by auto
    from assms l have "\<not> contains sub (lower label)" by blast
    with contains_lower_strip c show "\<not> contains sub (lower col)" by blast
  qed
  then show ?thesis by (simp add: find_column_def find_None_iff)
qed

text \<open>
  Claim C7. When no label of a CSV row contains \<^verbatim>\<open>cost\<close> and none contains
  \<^verbatim>\<open>quantity\<close>, in any case of the letters, the texts of its cost and of its quantity
  are \<^verbatim>\<open>"0"\<close>, which convert to zero without an exception, and against a record of
  quantity 0 and unit price 0.0 the row is a candidate.
\<close>

theorem zero_default_gate:
  assumes labels: "\<forall>label\<in>fst ` set row.
             \<not> contains ''cost'' (lower label) \<and> \<not> contains ''quantity'' (lower label)"
      and qty: "Qty pdf_record = 0"
      and price: "Net_Unit_Price pdf_record = Finite 0"
  shows "csv_cost_text (strip_keys row) = ''0''
       \<and> csv_qty_text (strip_keys row) = ''0''
       \<and> py_float ''0'' = Inr (Finite 0)
       \<and> int_of_float (Finite 0) = Inr 0
       \<and> find_matching_additions ratio pdf_record [row]
         = Inr [\<lparr>data = filter (\<lambda>(key, v). key \<in> set selected_fields) (strip_keys row),
                 relevance = ratio (normalize_string (Description pdf_record))
                   (normalize_string
                      (dict_get (strip_keys row) ''Description'' ''No Description Found''))\<rparr>]"
proof -
  from labels have c: "find_column ''cost'' (strip_keys row) = None"
    by (intro find_column_None) blast
  from labels have q: "find_column ''quantity'' (strip_keys row) = None"
    by (intro find_column_None) blast
  have ct: "csv_cost_text (strip_keys row) = ''0''" by (simp add: csv_cost_text_def c)
  have qt: "csv_qty_text (strip_keys row) = ''0''" by (simp add: csv_qty_text_def q)
  have m: "match_row ratio pdf_record row
         = Inr (Some \<lparr>data = filter (\<lambda>(key, v). key \<in> set selected_fields) (strip_keys row),
                 relevance = ratio (normalize_string (Description pdf_record))
                   (normalize_string
                      (dict_get (strip_keys row) ''Description'' ''No Description Found''))\<rparr>)"
    by (simp add: match_row_def Let_def ct qt py_float_0 int_of_float_0 qty price float_eq_def)
  have "find_matching_additions ratio pdf_record [row]
         = Inr [\<lparr>data = filter (\<lambda>(key, v). key \<in> set selected_fields) (strip_keys row),
                 relevance = ratio (normalize_string (Description pdf_record))
                   (normalize_string
                      (dict_get (strip_keys row) ''Description'' ''No Description Found''))\<rparr>]"
    by (simp add: find_matching_additions_def m sorted_reverse_def)
  with ct qt py_float_0 int_of_float_0 show ?thesis by simp
qed

text \<open>Claim C7 on a row with a description and an agreement name only.\<close>

theorem zero_default_gate_witness:
  "\<not> contains ''cost'' (lower ''Description'') \<and> \<not> contains ''quantity'' (lower ''Description'')
   \<and> \<not> contains ''cost'' (lower ''Agreement Name'')
   \<and> \<not> contains ''quantity'' (lower ''Agreement Name'')
   \<and> Qty blank_record = 0 \<and> Net_Unit_Price blank_record = Finite 0
   \<and> csv_cost_text (strip_keys unlabelled_row) = ''0''
   \<and> csv_qty_text (strip_keys unlabelled_row) = ''0''
   \<and> find_matching_additions equal_or_half blank_record [unlabelled_row]
       = Inr [\<lparr>data = unlabelled_row, relevance = 100\<rparr>]"
proof -
  have c: "\<not> contains ''cost'' (lower ''Description'')"
    "\<not> contains ''quantity'' (lower ''Description'')"
    "\<not> contains ''cost'' (lower ''Agreement Name'')"
    "\<not> contains ''quantity'' (lower ''Agreement Name'')"
    by (simp_all add: char_defs char_of_eq_iff)
  then have labels: "\<forall>label\<in>fst ` set unlabelled_row.
      \<not> contains ''cost'' (lower label) \<and> \<not> contains ''quantity'' (lower label)"
    by (simp add: unlabelled_row_def)
  have qty: "Qty blank_record = 0" and price: "Net_Unit_Price blank_record = Finite 0"
    by (simp_all add: blank_record_def)
  have d: "filter (\<lambda>(key, v). key \<in> set selected_fields) (strip_keys unlabelled_row)
         = unlabelled_row"
    "dict_get (strip_keys unlabelled_row) ''Description'' ''No Description Found'' = ''Thing''"
    by (simp_all add: unlabelled_row_def row_defs char_defs char_of_eq_iff)
  have n: "normalize_string (Description blank_record) = normalize_string ''Thing''"
    by (simp add: blank_record_def)
  from zero_default_gate [OF labels qty price, of equal_or_half]
  have "csv_cost_text (strip_keys unlabelled_row) = ''0''
      \<and> csv_qty_text (strip_keys unlabelled_row) = ''0''
      \<and> find_matching_additions equal_or_half blank_record [unlabelled_row]
       = Inr [\<lparr>data = unlabelled_row, relevance = 100\<rparr>]"
    by (simp add: d n equal_or_half_def)
  with c qty price show ?thesis by simp
qed

section \<open>Properties of the choice of the CSV file\<close>

lemma find_matching_loop_exact:
  assumes "\<forall>g\<in>set before. \<not> exact_match company g" and "exact_match company first"
  shows "find_matching_loop ratio (normalize_string company) dir (before @ first # after) acc
       = [path_join dir first]"
  using assms
proof (induction before arbitrary: acc)
  case Nil
  then show ?case by (simp add: exact_match_def)
next
  case (Cons g before)
  from Cons.prems have g: "\<not> exact_match company g"
    and rest: "\<forall>g\<in>set before. \<not> exact_match company g" by simp_all
  have IH: "\<And>acc. find_matching_loop ratio (normalize_string company) dir
               (before @ first # after) acc = [path_join dir first]"
    using Cons.IH [OF rest Cons.prems(2)] .
  show ?case
  proof (cases "endswith g ''.csv''")
    case True
    with g have "normalize_string company \<noteq> normalize_string (splitext_base g)"
      by (simp add: exact_match_def)
    with True show ?thesis by (simp add: Let_def IH)
  next
    case False
    then show ?thesis by (simp add: IH)
  qed
qed

lemma first_exact_split:
  assumes "table \<in> set listing" and "exact_match company table"
  shows "\<exists>before first after. listing = before @ first # after
           \<and> (\<forall>g\<in>set before. \<not> exact_match company g) \<and> exact_match company first"
  using assms split_list_first_prop [of listing "exact_match company"] by blast

text \<open>
  Claim C2. When some file of the listing is an exact match of the company name, the
  result is the path of the first exact match of the listing, and of nothing else, whatever
  \<open>ratio\<close> says of this file or of any other.
\<close>

theorem exact_match_precedence:
  assumes "table \<in> set listing" and "exact_match company_name table"
  shows "\<exists>before first after.
           listing = before @ first # after
         \<and> (\<forall>g\<in>set before. \<not> exact_match company_name g)
         \<and> exact_match company_name first
         \<and> find_matching_csv_files ratio company_name dir listing = [path_join dir first]"
proof -
  from first_exact_split [OF assms] obtain before first after where
    l: "listing = before @ first # after"
    and b: "\<forall>g\<in>set before. \<not> exact_match company_name g"
    and f: "exact_match company_name first" by blast
  have "find_matching_csv_files ratio company_name dir listing = [path_join dir first]"
    unfolding find_matching_csv_files_def l using b f by (rule find_matching_loop_exact)
  with l b f show ?thesis by blast
qed

text \<open>
  Claim C2 on a listing with two exact matches after a file that is only a fuzzy match,
  every score being 100: the first exact match is returned.
\<close>

theorem exact_match_precedence_witness:
  "''Acme Corp.csv'' \<in> set sample_listing
   \<and> exact_match ''Acme Corp'' ''Acme Corp.csv''
   \<and> exact_match ''Acme Corp'' ''ACME corp!.csv''
   \<and> \<not> exact_match ''Acme Corp'' ''Acme Corp 2.csv''
   \<and> find_matching_csv_files (\<lambda>a b. 100) ''Acme Corp'' ''data'' sample_listing
       = [''data/ACME corp!.csv'']"
proof -
  have m: "''Acme Corp.csv'' \<in> set sample_listing" by (simp add: sample_listing_def)
  have e: "exact_match ''Acme Corp'' ''Acme Corp.csv''"
    by (simp add: file_defs char_defs char_of_eq_iff)
  have e2: "exact_match ''Acme Corp'' ''ACME corp!.csv''"
    by (simp add: file_defs char_defs char_of_eq_iff)
  have e3: "\<not> exact_match ''Acme Corp'' ''Acme Corp 2.csv''"
    by (simp add: file_defs char_defs char_of_eq_iff)
  have r: "find_matching_csv_files (\<lambda>a b. 100) ''Acme Corp'' ''data'' sample_listing
       = [''data/ACME corp!.csv'']"
    by (simp add: find_matching_csv_files_def sample_listing_def file_defs char_defs
        char_of_eq_iff Let_def)
  from exact_match_precedence [OF m e, of "\<lambda>a b. 100" "''data''"]
  obtain first where
    "find_matching_csv_files (\<lambda>a b. 100) ''Acme Corp'' ''data'' sample_listing
       = [path_join ''data'' first]" by blast
  with m e e2 e3 r show ?thesis by simp
qed

section \<open>Properties of the cleaning\<close>

text \<open>
  Claim C4, amended. For a row of at least 11 cells: a quantity cell with no digit and no
  dot gives the quantity 0; a price or total cell that is absent, empty or blank gives 0.0;
  and when all three are so, the row is cleaned without an exception. A cell that the
  cleanup leaves non-empty and that is no number raises the exception of the conversion:
  nothing turns it into zero.
\<close>

theorem numeric_defaults:
  assumes "11 \<le> length row"
  shows "(cleaned_qty_text (row ! 8) = [] \<longrightarrow> clean_qty (row ! 8) = Inr 0)
       \<and> (cell_text (row ! 9) = [] \<longrightarrow> clean_amount (row ! 9) = Inr (Finite 0))
       \<and> (cell_text (row ! 10) = [] \<longrightarrow> clean_amount (row ! 10) = Inr (Finite 0))
       \<and> (cleaned_qty_text (row ! 8) = [] \<and> cell_text (row ! 9) = [] \<and> cell_text (row ! 10) = []
            \<longrightarrow> (\<exists>r. clean_row row = Inr r \<and> Qty r = 0 \<and> Net_Unit_Price r = Finite 0
                      \<and> Total_Amount r = Finite 0))
       \<and> (\<forall>e. cleaned_qty_text (row ! 8) \<noteq> [] \<and> py_float (cleaned_qty_text (row ! 8)) = Inl e
            \<longrightarrow> clean_row row = Inl e)
       \<and> (\<forall>e q. clean_qty (row ! 8) = Inr q \<and> cell_text (row ! 9) \<noteq> []
              \<and> py_float (remove_commas (cell_text (row ! 9))) = Inl e
            \<longrightarrow> clean_row row = Inl e)
       \<and> (\<forall>e q p. clean_qty (row ! 8) = Inr q \<and> clean_amount (row ! 9) = Inr p
              \<and> cell_text (row ! 10) \<noteq> []
              \<and> py_float (remove_commas (cell_text (row ! 10))) = Inl e
            \<longrightarrow> clean_row row = Inl e)"
proof -
  have q0: "cleaned_qty_text c = [] \<Longrightarrow> clean_qty c = Inr 0" for c
    by (simp add: clean_qty_def Let_def)
  have a0: "cell_text c = [] \<Longrightarrow> clean_amount c = Inr (Finite 0)" for c
    by (simp add: clean_amount_def Let_def remove_commas_def py_float_000)
  have qe: "cleaned_qty_text c \<noteq> [] \<Longrightarrow> py_float (cleaned_qty_text c) = Inl e
              \<Longrightarrow> clean_qty c = Inl e" for c e
    by (simp add: clean_qty_def Let_def)
  have ae: "cell_text c \<noteq> [] \<Longrightarrow> py_float (remove_commas (cell_text c)) = Inl e
              \<Longrightarrow> clean_amount c = Inl e" for c e
    by (simp add: clean_amount_def Let_def)
  show ?thesis
    by (auto simp: q0 a0 qe ae clean_row_def Let_def qty_value_0)
qed

lemma blank_row_cells:
  "cleaned_qty_text (blank_row ! 8) = []" "cell_text (blank_row ! 9) = []"
  "cell_text (blank_row ! 10) = []"
  by (simp_all add: blank_row_def cleaned_qty_text_def cell_text_def strip_def char_defs)

lemma blank_row_clean: "clean_row blank_row = Inr blank_record"
proof -
  have q: "clean_qty (blank_row ! 8) = Inr 0"
    using blank_row_cells(1) by (simp add: clean_qty_def)
  have a: "clean_amount (blank_row ! 9) = Inr (Finite 0)"
    using blank_row_cells(2) by (simp add: clean_amount_def remove_commas_def py_float_000)
  have b: "clean_amount (blank_row ! 10) = Inr (Finite 0)"
    using blank_row_cells(3) by (simp add: clean_amount_def remove_commas_def py_float_000)
  have d: "clean_description ''Thing'' = ''Thing''"
    by (simp add: clean_description_def char_defs match_digits_def)
  have c: "clean_customer ''Beta'' = ''Beta''"
    by (simp add: clean_customer_def char_defs)
  have t: "cell_text (Some ''Thing'') = ''Thing''" "cell_text (Some ''Beta'') = ''Beta''"
    by (simp_all add: cell_text_def strip_def char_defs)
  show ?thesis
    unfolding clean_row_def Let_def q a b
    by (simp add: blank_row_def blank_record_def c d cell_text_def strip_def char_defs
        qty_value_0)
qed

text \<open>Claim C4, amended, on a row whose three numeric cells are absent or blank.\<close>

theorem numeric_defaults_witness:
  "11 \<le> length blank_row
   \<and> cleaned_qty_text (blank_row ! 8) = []
   \<and> cell_text (blank_row ! 9) = []
   \<and> cell_text (blank_row ! 10) = []
   \<and> clean_row blank_row = Inr blank_record
   \<and> Qty blank_record = 0
   \<and> Net_Unit_Price blank_record = Finite 0
   \<and> Total_Amount blank_record = Finite 0"
proof -
  have l: "11 \<le> length blank_row" by (simp add: blank_row_def)
  from numeric_defaults [OF l] blank_row_cells
  obtain r where "clean_row blank_row = Inr r" "Qty r = 0" "Net_Unit_Price r = Finite 0"
    "Total_Amount r = Finite 0" by blast
  with blank_row_clean l blank_row_cells show ?thesis by simp
qed

text \<open>
  Claim C4 as it is written fails: a quantity cell \<^verbatim>\<open>1.2.3\<close> keeps its digits and dots
  through the cleanup, \<^verbatim>\<open>float\<close> rejects it, and cleaning the row raises
  \<^verbatim>\<open>ValueError\<close> instead of giving the quantity 0.
\<close>

theorem unparseable_quantity_raises:
  "11 \<le> length bad_quantity_row
   \<and> cleaned_qty_text (bad_quantity_row ! 8) = ''1.2.3''
   \<and> py_float ''1.2.3'' = Inl ValueError
   \<and> clean_row bad_quantity_row = Inl ValueError"
proof -
  have c: "cleaned_qty_text (Some ''1.2.3'') = ''1.2.3''"
    by (simp add: cleaned_qty_text_def cell_text_def strip_def char_defs)
  have "clean_qty (Some ''1.2.3'') = Inl ValueError"
    by (simp add: clean_qty_def c py_float_123)
  then have "clean_row bad_quantity_row = Inl ValueError"
    by (simp add: clean_row_def bad_quantity_row_def Let_def)
  with c py_float_123 show ?thesis by (simp add: bad_quantity_row_def)
qed

lemma clean_qty_10: "clean_qty (Some ''10'') = Inr 10"
  by (simp add: clean_qty_def cleaned_qty_text_def cell_text_def strip_def char_defs Let_def
      py_float_10 int_of_float_10)

lemma qty_value_10: "qty_value 10 = Inr 10"
  by (simp add: qty_value_def float_of_int_def round_double_10 int_of_float_10)

lemma clean_amount_2500: "clean_amount (Some ''25.00'') = Inr (Finite 25)"
  by (simp add: clean_amount_def cell_text_def strip_def char_defs remove_commas_def
      py_float_2500)

lemma clean_amount_25000: "clean_amount (Some ''250.00'') = Inr (Finite 250)"
  by (simp add: clean_amount_def cell_text_def strip_def char_defs remove_commas_def
      py_float_25000)

lemma scenario_description:
  "clean_description ''20180101 Subscription #1234567: Widget Pro'' = ''Widget Pro''"
  by (simp add: clean_description_def char_defs match_digits_def
      match_spaces1_def match_literal_def)

lemma scenario_customer:
  "clean_customer ''9876543210 Acme Corp'' = '' Acme Corp''"
  by (simp add: clean_customer_def char_defs)

text \<open>
  Claim C3. On the row of the scenario, after the header is skipped, the code gives the
  description \<^verbatim>\<open>Widget Pro\<close>, the quantity 10, the unit price 25.0 and the total 250.0,
  as the claim says; but the customer is \<^verbatim>\<open>" Acme Corp"\<close>, with a blank in front: the
  substitution writes one blank in place of the ten digits and the whitespace after them.
\<close>

theorem scenario_entity_name_keeps_blank:
  "clean_row scenario_row = Inr scenario_record
   \<and> extract_pdf [Some [[], scenario_row]] = Inr [scenario_record]
   \<and> End_Customer scenario_record = '' Acme Corp''"
proof -
  have r: "clean_row scenario_row = Inr scenario_record"
    by (simp add: clean_row_def scenario_row_def scenario_record_def Let_def clean_qty_10
        qty_value_10
        clean_amount_2500 clean_amount_25000 scenario_description scenario_customer
        cell_text_def strip_def char_defs)
  have "11 \<le> length scenario_row" by (simp add: scenario_row_def)
  with r have "extract_pdf [Some [[], scenario_row]] = Inr [scenario_record]"
    by (simp add: extract_pdf_def)
  with r show ?thesis by (simp add: scenario_record_def)
qed

section \<open>Properties of the search for unmatched records\<close>

lemma find_unmatched_loop_result:
  "find_unmatched_loop ratio store pdf_data acc = Inr unmatched \<Longrightarrow>
     unmatched = acc @ filter (\<lambda>r. matches_of_record ratio store r = Inr []) pdf_data"
proof (induction pdf_data arbitrary: acc)
  case Nil
  then show ?case by simp
next
  case (Cons r pdf_data)
  from Cons.prems obtain ms where ms: "matches_of_record ratio store r = Inr ms"
    by (auto simp: matches_of_record_def split: sum.splits)
  show ?case
  proof (cases "ms = []")
    case True
    with ms Cons.prems have "find_unmatched_loop ratio store pdf_data (acc @ [r]) = Inr unmatched"
      by (auto simp: matches_of_record_def split: sum.splits)
    from Cons.IH [OF this] ms True show ?thesis by simp
  next
    case False
    with ms Cons.prems have "find_unmatched_loop ratio store pdf_data acc = Inr unmatched"
      by (auto simp: matches_of_record_def split: sum.splits)
    from Cons.IH [OF this] ms False show ?thesis by simp
  qed
qed

lemma find_unmatched_loop_total:
  "\<forall>r\<in>set pdf_data. \<exists>ms. matches_of_record ratio store r = Inr ms \<Longrightarrow>
     find_unmatched_loop ratio store pdf_data acc
       = Inr (acc @ filter (\<lambda>r. matches_of_record ratio store r = Inr []) pdf_data)"
proof (induction pdf_data arbitrary: acc)
  case Nil
  show ?case by simp
next
  case (Cons r pdf_data)
  from Cons.prems obtain ms where ms: "matches_of_record ratio store r = Inr ms" by auto
  from Cons.prems have rest: "\<forall>r\<in>set pdf_data. \<exists>ms. matches_of_record ratio store r = Inr ms"
    by simp
  from ms obtain csv_data where
    c: "extract_matching_csv_data ratio store (End_Customer r) = Inr csv_data"
    and f: "find_matching_additions ratio r csv_data = Inr ms"
    by (auto simp: matches_of_record_def split: sum.splits)
  show ?case
  proof (cases "ms = []")
    case True
    with c f have "find_unmatched_loop ratio store (r # pdf_data) acc
                 = find_unmatched_loop ratio store pdf_data (acc @ [r])" by simp
    with Cons.IH [OF rest, of "acc @ [r]"] ms True show ?thesis by simp
  next
    case False
    with c f have "find_unmatched_loop ratio store (r # pdf_data) acc
                 = find_unmatched_loop ratio store pdf_data acc" by simp
    with Cons.IH [OF rest, of acc] ms False show ?thesis by simp
  qed
qed

lemma find_unmatched_loop_defined:
  "find_unmatched_loop ratio store pdf_data acc = Inr unmatched \<Longrightarrow>
     \<forall>r\<in>set pdf_data. \<exists>ms. matches_of_record ratio store r = Inr ms"
proof (induction pdf_data arbitrary: acc)
  case Nil
  show ?case by simp
next
  case (Cons r pdf_data)
  from Cons.prems obtain ms where ms: "matches_of_record ratio store r = Inr ms"
    by (auto simp: matches_of_record_def split: sum.splits)
  from Cons.prems ms obtain acc' where
    "find_unmatched_loop ratio store pdf_data acc' = Inr unmatched"
    by (auto simp: matches_of_record_def split: sum.splits if_splits)
  from Cons.IH [OF this] ms show ?case by simp
qed

text \<open>
  Claim C10. \<^verbatim>\<open>find_unmatched_pdf_records\<close> returns a list exactly when the extraction
  and the matching of every record raise nothing, and the list is then the list of the
  extracted records, in their order, for which no match was found. The identifier of a
  record plays no part, so a record is kept also when an earlier one has its identifier.
\<close>

theorem find_unmatched_no_dedup:
  "find_unmatched_pdf_records ratio pages store = Inr unmatched \<longleftrightarrow>
     (\<exists>pdf_data. extract_pdf pages = Inr pdf_data
        \<and> (\<forall>r\<in>set pdf_data. \<exists>ms. matches_of_record ratio store r = Inr ms)
        \<and> unmatched = filter (\<lambda>r. matches_of_record ratio store r = Inr []) pdf_data)"
proof
  assume a: "find_unmatched_pdf_records ratio pages store = Inr unmatched"
  then obtain pdf_data where e: "extract_pdf pages = Inr pdf_data"
    and l: "find_unmatched_loop ratio store pdf_data [] = Inr unmatched"
    by (auto simp: find_unmatched_pdf_records_def split: sum.splits)
  from find_unmatched_loop_result [OF l] find_unmatched_loop_defined [OF l] e
  show "\<exists>pdf_data. extract_pdf pages = Inr pdf_data
        \<and> (\<forall>r\<in>set pdf_data. \<exists>ms. matches_of_record ratio store r = Inr ms)
        \<and> unmatched = filter (\<lambda>r. matches_of_record ratio store r = Inr []) pdf_data"
    by auto
next
  assume "\<exists>pdf_data. extract_pdf pages = Inr pdf_data
        \<and> (\<forall>r\<in>set pdf_data. \<exists>ms. matches_of_record ratio store r = Inr ms)
        \<and> unmatched = filter (\<lambda>r. matches_of_record ratio store r = Inr []) pdf_data"
  then obtain pdf_data where e: "extract_pdf pages = Inr pdf_data"
    and d: "\<forall>r\<in>set pdf_data. \<exists>ms. matches_of_record ratio store r = Inr ms"
    and u: "unmatched = filter (\<lambda>r. matches_of_record ratio store r = Inr []) pdf_data"
    by blast
  from find_unmatched_loop_total [OF d, of "[]"] e u
  show "find_unmatched_pdf_records ratio pages store = Inr unmatched"
    by (simp add: find_unmatched_pdf_records_def)
qed

lemma duplicate_row_clean: "clean_row duplicate_row = Inr later_duplicate"
proof -
  have q: "clean_qty None = Inr 0"
    by (simp add: clean_qty_def cleaned_qty_text_def cell_text_def)
  have a: "clean_amount None = Inr (Finite 0)"
    by (simp add: clean_amount_def cell_text_def remove_commas_def py_float_000)
  have d: "clean_description ''Other'' = ''Other''"
    by (simp add: clean_description_def char_defs match_digits_def)
  have c: "clean_customer ''Gamma'' = ''Gamma''"
    by (simp add: clean_customer_def char_defs)
  show ?thesis
    by (simp add: clean_row_def Let_def duplicate_row_def later_duplicate_def q a c d
        cell_text_def strip_def char_defs qty_value_0)
qed

text \<open>
  Claim C10 on two rows with the same identifier and no CSV file: both records are
  returned.
\<close>

theorem find_unmatched_no_dedup_witness:
  "extract_pdf [Some [[], blank_row, duplicate_row]] = Inr [blank_record, later_duplicate]
   \<and> Number later_duplicate = Number blank_record
   \<and> matches_of_record equal_or_half empty_store blank_record = Inr []
   \<and> matches_of_record equal_or_half empty_store later_duplicate = Inr []
   \<and> find_unmatched_pdf_records equal_or_half [Some [[], blank_row, duplicate_row]] empty_store
       = Inr [blank_record, later_duplicate]"
proof -
  have l: "11 \<le> length blank_row" "11 \<le> length duplicate_row"
    by (simp_all add: blank_row_def duplicate_row_def)
  have e: "extract_pdf [Some [[], blank_row, duplicate_row]] = Inr [blank_record, later_duplicate]"
    using l by (simp add: extract_pdf_def blank_row_clean duplicate_row_clean)
  have m: "matches_of_record equal_or_half empty_store r = Inr []" for r
    by (simp add: matches_of_record_def extract_matching_csv_data_def
        find_matching_csv_files_def empty_store_def find_matching_additions_def
        sorted_reverse_def)
  have n: "Number later_duplicate = Number blank_record"
    by (simp add: later_duplicate_def blank_record_def)
  have "find_unmatched_pdf_records equal_or_half [Some [[], blank_row, duplicate_row]]
          empty_store = Inr [blank_record, later_duplicate]"
    unfolding find_unmatched_no_dedup using e m by simp
  with e m n show ?thesis by simp
qed

section \<open>Properties of the report\<close>

lemma write_matches_acc:
  "write_matches p ms written =
     (case write_matches p ms [] of Inl e \<Rightarrow> Inl e | Inr rows \<Rightarrow> Inr (written @ rows))"
proof (induction ms arbitrary: written)
  case Nil
  show ?case by simp
next
  case (Cons m ms)
  show ?case
  proof (cases "matched_row p m")
    case (Inl e)
    then show ?thesis by simp
  next
    case (Inr row)
    have "write_matches p (m # ms) written = write_matches p ms (written @ [row])"
      using Inr by simp
    also have "\<dots> = (case write_matches p ms [] of
                        Inl e \<Rightarrow> Inl e | Inr rows \<Rightarrow> Inr ((written @ [row]) @ rows))"
      by (rule Cons.IH)
    finally have l: "write_matches p (m # ms) written =
        (case write_matches p ms [] of Inl e \<Rightarrow> Inl e | Inr rows \<Rightarrow> Inr (written @ row # rows))"
      by (simp split: sum.splits)
    have "write_matches p (m # ms) [] = write_matches p ms [row]" using Inr by simp
    also have "\<dots> = (case write_matches p ms [] of
                        Inl e \<Rightarrow> Inl e | Inr rows \<Rightarrow> Inr ([row] @ rows))"
      by (rule Cons.IH)
    finally have r: "write_matches p (m # ms) [] =
        (case write_matches p ms [] of Inl e \<Rightarrow> Inl e | Inr rows \<Rightarrow> Inr (row # rows))"
      by (simp split: sum.splits)
    show ?thesis unfolding l r by (simp split: sum.splits)
  qed
qed

lemma write_loop_step:
  "write_loop (e # es) seen written =
     (if Number (pdf e) \<in> seen then write_loop es seen written
      else (case entry_rows e of
              Inl err \<Rightarrow> Inl err
            | Inr rows \<Rightarrow> write_loop es (insert (Number (pdf e)) seen) (written @ rows)))"
proof (cases "matches e = []")
  case True
  then show ?thesis by (simp add: entry_rows_def Let_def)
next
  case False
  then show ?thesis
    by (simp add: entry_rows_def Let_def write_matches_acc [of _ _ written] split: sum.splits)
qed

lemma write_loop_acc:
  "write_loop es seen written =
     (case write_loop es seen [] of Inl e \<Rightarrow> Inl e | Inr rows \<Rightarrow> Inr (written @ rows))"
proof (induction es arbitrary: seen written)
  case Nil
  show ?case by simp
next
  case (Cons e es)
  show ?case
  proof (cases "Number (pdf e) \<in> seen")
    case True
    then show ?thesis using Cons.IH [of seen written] by (simp only: write_loop_step if_True)
  next
    case False
    show ?thesis
    proof (cases "entry_rows e")
      case (Inl err)
      with False show ?thesis by (simp only: write_loop_step if_False sum.case)
    next
      case (Inr rows)
      let ?s = "insert (Number (pdf e)) seen"
      have l: "write_loop (e # es) seen written = write_loop es ?s (written @ rows)"
        using False Inr by (simp only: write_loop_step if_False sum.case)
      have r: "write_loop (e # es) seen [] = write_loop es ?s rows"
        using False Inr by (simp only: write_loop_step if_False sum.case append_Nil)
      show ?thesis
        unfolding l r Cons.IH [of ?s "written @ rows"] Cons.IH [of ?s rows]
        by (simp split: sum.splits)
    qed
  qed
qed

lemma write_loop_append:
  "write_loop (xs @ ys) seen written =
     (case write_loop xs seen written of
        Inl e \<Rightarrow> Inl e
      | Inr w \<Rightarrow> write_loop ys (seen \<union> (\<lambda>x. Number (pdf x)) ` set xs) w)"
proof (induction xs arbitrary: seen written)
  case Nil
  show ?case by simp
next
  case (Cons e xs)
  show ?case
  proof (cases "Number (pdf e) \<in> seen")
    case True
    then have "seen \<union> (\<lambda>x. Number (pdf x)) ` set (e # xs) = seen \<union> (\<lambda>x. Number (pdf x)) ` set xs"
      by auto
    with True Cons.IH [of seen written] show ?thesis
      by (simp only: append_Cons write_loop_step if_True)
  next
    case False
    show ?thesis
    proof (cases "entry_rows e")
      case (Inl err)
      with False show ?thesis by (simp only: append_Cons write_loop_step if_False sum.case)
    next
      case (Inr rows)
      have s: "insert (Number (pdf e)) seen \<union> (\<lambda>x. Number (pdf x)) ` set xs
             = seen \<union> (\<lambda>x. Number (pdf x)) ` set (e # xs)" by auto
      show ?thesis
        using False Inr Cons.IH [of "insert (Number (pdf e)) seen" "written @ rows"]
        by (simp only: append_Cons write_loop_step if_False sum.case s)
    qed
  qed
qed

lemma write_matches_hd:
  "write_matches p ms [] = Inr rows \<Longrightarrow> row \<in> set rows \<Longrightarrow> hd row = cell_value (Number p)"
proof (induction ms arbitrary: rows)
  case Nil
  then show ?case by simp
next
  case (Cons m ms)
  from Cons.prems(1) obtain r where r: "matched_row p m = Inr r"
    and w: "write_matches p ms [r] = Inr rows"
    by (auto split: sum.splits)
  from w obtain rest where rest: "write_matches p ms [] = Inr rest" and rows: "rows = r # rest"
    by (subst (asm) write_matches_acc) (auto split: sum.splits)
  have "hd r = cell_value (Number p)"
    using r by (auto simp: matched_row_def pdf_values_def split: sum.splits)
  with Cons.IH [OF rest] Cons.prems(2) rows show ?case by auto
qed

lemma entry_rows_hd:
  "entry_rows e = Inr rows \<Longrightarrow> row \<in> set rows \<Longrightarrow> hd row = cell_value (Number (pdf e))"
  by (cases "matches e = []")
     (auto simp: entry_rows_def unmatched_row_def pdf_values_def dest: write_matches_hd)

lemma cell_value_inject: "cell_value a = cell_value b \<Longrightarrow> a = b"
  by (cases a; cases b) (simp_all add: cell_value_def)

lemma write_loop_numbers:
  "write_loop es seen [] = Inr rows \<Longrightarrow> row \<in> set rows \<Longrightarrow>
     \<exists>e\<in>set es. hd row = cell_value (Number (pdf e)) \<and> Number (pdf e) \<notin> seen"
proof (induction es arbitrary: seen rows)
  case Nil
  then show ?case by simp
next
  case (Cons e es)
  show ?case
  proof (cases "Number (pdf e) \<in> seen")
    case True
    with Cons.prems(1) have "write_loop es seen [] = Inr rows"
      by (simp only: write_loop_step if_True)
    from Cons.IH [OF this Cons.prems(2)] show ?thesis by auto
  next
    case False
    let ?s = "insert (Number (pdf e)) seen"
    from False Cons.prems(1) obtain re where re: "entry_rows e = Inr re"
      and w: "write_loop es ?s re = Inr rows"
      by (simp only: write_loop_step if_False append_Nil) (auto split: sum.splits)
    from w obtain rest where rest: "write_loop es ?s [] = Inr rest" and rows: "rows = re @ rest"
      by (subst (asm) write_loop_acc) (auto split: sum.splits)
    from Cons.prems(2) rows consider "row \<in> set re" | "row \<in> set rest" by auto
    then show ?thesis
    proof cases
      case 1
      with entry_rows_hd [OF re] False show ?thesis by auto
    next
      case 2
      from Cons.IH [OF rest 2] show ?thesis by auto
    qed
  qed
qed

lemma filter_none: "(\<And>x. x \<in> set xs \<Longrightarrow> \<not> P x) \<Longrightarrow> filter P xs = []"
  by (induction xs) auto

lemma filter_all: "(\<And>x. x \<in> set xs \<Longrightarrow> P x) \<Longrightarrow> filter P xs = xs"
  by (induction xs) auto

lemma write_loop_first_rows:
  assumes first: "\<forall>x\<in>set before. Number (pdf x) \<noteq> Number (pdf e)"
      and res: "write_loop (before @ e # after) {} [] = Inr rows"
  shows "entry_rows e = Inr (filter (\<lambda>row. hd row = cell_value (Number (pdf e))) rows)"
proof -
  let ?n = "Number (pdf e)"
  let ?P = "\<lambda>row. hd row = cell_value ?n"
  let ?s = "{} \<union> (\<lambda>x. Number (pdf x)) ` set before"
  from res obtain r1 where r1: "write_loop before {} [] = Inr r1"
    and w: "write_loop (e # after) ?s r1 = Inr rows"
    by (subst (asm) write_loop_append) (auto split: sum.splits)
  have notin: "?n \<notin> ?s" using first by auto
  from w notin obtain re where re: "entry_rows e = Inr re"
    and w2: "write_loop after (insert ?n ?s) (r1 @ re) = Inr rows"
    by (simp only: write_loop_step if_False) (auto split: sum.splits)
  from w2 obtain r3 where r3: "write_loop after (insert ?n ?s) [] = Inr r3"
    and rows: "rows = (r1 @ re) @ r3"
    by (subst (asm) write_loop_acc) (auto split: sum.splits)
  have f1: "filter ?P r1 = []"
  proof (rule filter_none)
    fix row assume "row \<in> set r1"
    from write_loop_numbers [OF r1 this] obtain x :: entry where "x \<in> set before"
      and "hd row = cell_value (Number (pdf x))" by blast
    with first show "\<not> ?P row" by (auto dest: cell_value_inject)
  qed
  have f2: "filter ?P re = re"
    by (rule filter_all) (rule entry_rows_hd [OF re])
  have f3: "filter ?P r3 = []"
  proof (rule filter_none)
    fix row assume "row \<in> set r3"
    from write_loop_numbers [OF r3 this] obtain x :: entry where
      "hd row = cell_value (Number (pdf x))" and "Number (pdf x) \<notin> insert ?n ?s" by auto
    then show "\<not> ?P row" by (auto dest: cell_value_inject)
  qed
  show ?thesis unfolding rows using re f1 f2 f3 by simp
qed

lemma write_loop_drop_duplicate:
  assumes "Number (pdf e2) = Number (pdf e1)"
  shows "write_loop (before @ e1 # mid @ e2 # after) seen written
       = write_loop (before @ e1 # mid @ after) seen written"
proof -
  let ?xs = "before @ e1 # mid"
  have in_seen: "Number (pdf e2) \<in> seen \<union> (\<lambda>x. Number (pdf x)) ` set ?xs"
    using assms by auto
  have "write_loop (?xs @ e2 # after) seen written = write_loop (?xs @ after) seen written"
  proof (cases "write_loop ?xs seen written")
    case (Inl err)
    then show ?thesis by (simp only: write_loop_append [of ?xs] sum.case)
  next
    case (Inr w)
    then show ?thesis
      using in_seen by (simp only: write_loop_append [of ?xs] sum.case write_loop_step if_True)
  qed
  then show ?thesis by simp
qed

lemma matched_row_values:
  assumes "matched_row p m = Inr row"
  shows "\<exists>d c q a. map_of (match_data m) ''Description'' = Some d
           \<and> map_of (match_data m) ''Unit Cost'' = Some c
           \<and> map_of (match_data m) ''Total Quantity'' = Some q
           \<and> map_of (match_data m) ''Agreement Name'' = Some a
           \<and> row = [cell_value (Number p), PStr (End_Customer p), PStr (Description p),
                    PInt (Qty p), PFloat (Net_Unit_Price p), PFloat (Total_Amount p),
                    PStr (SO_PO_Number p), PStr d, PStr c, PStr q, PStr a, PNum (score m)]"
  using assms
  by (auto simp: matched_row_def dict_item_def pdf_values_def split: sum.splits option.splits)

lemma write_matches_rows:
  "write_matches p ms [] = Inr rows \<Longrightarrow>
     list_all2 (\<lambda>row m. matched_row p m = Inr row) rows ms"
proof (induction ms arbitrary: rows)
  case Nil
  then show ?case by simp
next
  case (Cons m ms)
  from Cons.prems obtain r where r: "matched_row p m = Inr r"
    and w: "write_matches p ms [r] = Inr rows"
    by (auto split: sum.splits)
  from w obtain rest where rest: "write_matches p ms [] = Inr rest" and rows: "rows = r # rest"
    by (subst (asm) write_matches_acc) (auto split: sum.splits)
  from Cons.IH [OF rest] r rows show ?case by simp
qed

lemma entry_rows_values:
  assumes "entry_rows e = Inr rows"
  shows "if matches e = []
         then rows = [[cell_value (Number (pdf e)), PStr (End_Customer (pdf e)),
                       PStr (Description (pdf e)), PInt (Qty (pdf e)),
                       PFloat (Net_Unit_Price (pdf e)), PFloat (Total_Amount (pdf e)),
                       PStr (SO_PO_Number (pdf e)), PStr [], PStr [], PStr [], PStr []]]
         else list_all2 (\<lambda>row m. \<exists>d c q a.
                  map_of (match_data m) ''Description'' = Some d
                \<and> map_of (match_data m) ''Unit Cost'' = Some c
                \<and> map_of (match_data m) ''Total Quantity'' = Some q
                \<and> map_of (match_data m) ''Agreement Name'' = Some a
                \<and> row = [cell_value (Number (pdf e)), PStr (End_Customer (pdf e)),
                         PStr (Description (pdf e)), PInt (Qty (pdf e)),
                         PFloat (Net_Unit_Price (pdf e)), PFloat (Total_Amount (pdf e)),
                         PStr (SO_PO_Number (pdf e)), PStr d, PStr c, PStr q, PStr a,
                         PNum (score m)])
                rows (matches e)"
proof (cases "matches e = []")
  case True
  with assms show ?thesis by (simp add: entry_rows_def unmatched_row_def pdf_values_def)
next
  case False
  with assms have "write_matches (pdf e) (matches e) [] = Inr rows"
    by (simp add: entry_rows_def)
  then have "list_all2 (\<lambda>row m. matched_row (pdf e) m = Inr row) rows (matches e)"
    by (rule write_matches_rows)
  then have "list_all2 (\<lambda>row m. \<exists>d c q a.
                  map_of (match_data m) ''Description'' = Some d
                \<and> map_of (match_data m) ''Unit Cost'' = Some c
                \<and> map_of (match_data m) ''Total Quantity'' = Some q
                \<and> map_of (match_data m) ''Agreement Name'' = Some a
                \<and> row = [cell_value (Number (pdf e)), PStr (End_Customer (pdf e)),
                         PStr (Description (pdf e)), PInt (Qty (pdf e)),
                         PFloat (Net_Unit_Price (pdf e)), PFloat (Total_Amount (pdf e)),
                         PStr (SO_PO_Number (pdf e)), PStr d, PStr c, PStr q, PStr a,
                         PNum (score m)])
                rows (matches e)"
    by (rule list_all2_mono) (rule matched_row_values)
  with False show ?thesis by simp
qed

text \<open>
  Claim C6. When a later entry has the identifier of an earlier one, the report is the one
  written without the later entry. And when the report is written, the rows that carry an
  identifier are those of the first entry with this identifier: one row for each of its
  matches, in their order, made of the seven values of its record, the four fields of the
  match and its score; or, when it has no match, the one row of the seven values of its
  record and four empty strings.
\<close>

theorem dedup_by_id:
  assumes "Number (pdf e2) = Number (pdf e1)"
  shows "write_report (before @ e1 # mid @ e2 # after) = write_report (before @ e1 # mid @ after)
       \<and> ((\<forall>x\<in>set before. Number (pdf x) \<noteq> Number (pdf e1))
            \<and> write_report (before @ e1 # mid @ e2 # after) = Inr written
          \<longrightarrow> (let rows = filter (\<lambda>row. hd row = cell_value (Number (pdf e1))) (tl written)
               in if matches e1 = []
                  then rows = [[cell_value (Number (pdf e1)), PStr (End_Customer (pdf e1)),
                       PStr (Description (pdf e1)), PInt (Qty (pdf e1)),
                       PFloat (Net_Unit_Price (pdf e1)), PFloat (Total_Amount (pdf e1)),
                       PStr (SO_PO_Number (pdf e1)), PStr [], PStr [], PStr [], PStr []]]
                  else list_all2 (\<lambda>row m. \<exists>d c q a.
                           map_of (match_data m) ''Description'' = Some d
                         \<and> map_of (match_data m) ''Unit Cost'' = Some c
                         \<and> map_of (match_data m) ''Total Quantity'' = Some q
                         \<and> map_of (match_data m) ''Agreement Name'' = Some a
                         \<and> row = [cell_value (Number (pdf e1)), PStr (End_Customer (pdf e1)),
                                  PStr (Description (pdf e1)), PInt (Qty (pdf e1)),
                                  PFloat (Net_Unit_Price (pdf e1)),
                                  PFloat (Total_Amount (pdf e1)),
                                  PStr (SO_PO_Number (pdf e1)), PStr d, PStr c, PStr q, PStr a,
                                  PNum (score m)])
                         rows (matches e1)))"
proof (intro conjI impI)
  show "write_report (before @ e1 # mid @ e2 # after) = write_report (before @ e1 # mid @ after)"
    unfolding write_report_def using assms by (rule write_loop_drop_duplicate)
next
  assume a: "(\<forall>x\<in>set before. Number (pdf x) \<noteq> Number (pdf e1))
            \<and> write_report (before @ e1 # mid @ e2 # after) = Inr written"
  then obtain rows where rows: "write_loop (before @ e1 # (mid @ e2 # after)) {} [] = Inr rows"
    and w: "written = [map PStr headers] @ rows"
    unfolding write_report_def by (subst (asm) write_loop_acc) (auto split: sum.splits)
  from a have first: "\<forall>x\<in>set before. Number (pdf x) \<noteq> Number (pdf e1)" by simp
  from write_loop_first_rows [OF first rows] w
  have "entry_rows e1 = Inr (filter (\<lambda>row. hd row = cell_value (Number (pdf e1))) (tl written))"
    by simp
  from entry_rows_values [OF this]
  show "let rows = filter (\<lambda>row. hd row = cell_value (Number (pdf e1))) (tl written)
               in if matches e1 = []
                  then rows = [[cell_value (Number (pdf e1)), PStr (End_Customer (pdf e1)),
                       PStr (Description (pdf e1)), PInt (Qty (pdf e1)),
                       PFloat (Net_Unit_Price (pdf e1)), PFloat (Total_Amount (pdf e1)),
                       PStr (SO_PO_Number (pdf e1)), PStr [], PStr [], PStr [], PStr []]]
                  else list_all2 (\<lambda>row m. \<exists>d c q a.
                           map_of (match_data m) ''Description'' = Some d
                         \<and> map_of (match_data m) ''Unit Cost'' = Some c
                         \<and> map_of (match_data m) ''Total Quantity'' = Some q
                         \<and> map_of (match_data m) ''Agreement Name'' = Some a
                         \<and> row = [cell_value (Number (pdf e1)), PStr (End_Customer (pdf e1)),
                                  PStr (Description (pdf e1)), PInt (Qty (pdf e1)),
                                  PFloat (Net_Unit_Price (pdf e1)),
                                  PFloat (Total_Amount (pdf e1)),
                                  PStr (SO_PO_Number (pdf e1)), PStr d, PStr c, PStr q, PStr a,
                                  PNum (score m)])
                         rows (matches e1)"
    by (simp only: Let_def)
qed

text \<open>
  Claim C6 on two entries with the same identifier: the first has two matches, the second
  another content and a match of its own. The report has the two rows of the first entry
  and nothing of the second.
\<close>

theorem dedup_by_id_witness:
  "Number later_duplicate = Number blank_record
   \<and> later_duplicate \<noteq> blank_record
   \<and> write_report [\<lparr>pdf = blank_record, matches = [full_match, half_match]\<rparr>,
                    \<lparr>pdf = later_duplicate, matches = [full_match]\<rparr>]
     = write_report [\<lparr>pdf = blank_record, matches = [full_match, half_match]\<rparr>]
   \<and> write_report [\<lparr>pdf = blank_record, matches = [full_match, half_match]\<rparr>,
                    \<lparr>pdf = later_duplicate, matches = [full_match]\<rparr>]
     = Inr [map PStr headers,
            [PStr ''1002'', PStr ''Beta'', PStr ''Thing'', PInt 0, PFloat (Finite 0),
             PFloat (Finite 0), PStr [], PStr ''Other'', PStr ''0'', PStr ''0'', PStr ''A1'',
             PNum 100],
            [PStr ''1002'', PStr ''Beta'', PStr ''Thing'', PInt 0, PFloat (Finite 0),
             PFloat (Finite 0), PStr [], PStr ''Thing'', PStr ''0.00'', PStr ''0'', PStr ''A2'',
             PNum 50]]
   \<and> length (filter (\<lambda>row. hd row = PStr ''1002'')
        [[PStr ''1002'', PStr ''Beta'', PStr ''Thing'', PInt 0, PFloat (Finite 0),
          PFloat (Finite 0), PStr [], PStr ''Other'', PStr ''0'', PStr ''0'', PStr ''A1'',
          PNum 100],
         [PStr ''1002'', PStr ''Beta'', PStr ''Thing'', PInt 0, PFloat (Finite 0),
          PFloat (Finite 0), PStr [], PStr ''Thing'', PStr ''0.00'', PStr ''0'', PStr ''A2'',
          PNum 50]]) = 2"
proof -
  let ?e1 = "\<lparr>pdf = blank_record, matches = [full_match, half_match]\<rparr>"
  let ?e2 = "\<lparr>pdf = later_duplicate, matches = [full_match]\<rparr>"
  let ?r1 = "[PStr ''1002'', PStr ''Beta'', PStr ''Thing'', PInt 0, PFloat (Finite 0),
             PFloat (Finite 0), PStr [], PStr ''Other'', PStr ''0'', PStr ''0'', PStr ''A1'',
             PNum 100]"
  let ?r2 = "[PStr ''1002'', PStr ''Beta'', PStr ''Thing'', PInt 0, PFloat (Finite 0),
             PFloat (Finite 0), PStr [], PStr ''Thing'', PStr ''0.00'', PStr ''0'', PStr ''A2'',
             PNum 50]"
  have n: "Number (pdf ?e2) = Number (pdf ?e1)"
    by (simp add: later_duplicate_def blank_record_def)
  have d: "later_duplicate \<noteq> blank_record"
    by (simp add: later_duplicate_def blank_record_def)
  have w: "write_report ([] @ ?e1 # [] @ ?e2 # []) = Inr [map PStr headers, ?r1, ?r2]"
    by (simp add: write_report_def later_duplicate_def blank_record_def full_match_def
        half_match_def matched_row_def dict_item_def pdf_values_def cell_value_def)
  have c: "cell_value (Number (pdf ?e1)) = PStr ''1002''"
    by (simp add: cell_value_def blank_record_def)
  from dedup_by_id [OF n, of "[]" "[]" "[]" "[map PStr headers, ?r1, ?r2]"] w
  have same: "write_report ([] @ ?e1 # [] @ ?e2 # []) = write_report ([] @ ?e1 # [] @ [])"
    and rows: "list_all2 (\<lambda>row m. \<exists>d c q a.
                           map_of (match_data m) ''Description'' = Some d
                         \<and> map_of (match_data m) ''Unit Cost'' = Some c
                         \<and> map_of (match_data m) ''Total Quantity'' = Some q
                         \<and> map_of (match_data m) ''Agreement Name'' = Some a
                         \<and> row = [cell_value (Number (pdf ?e1)), PStr (End_Customer (pdf ?e1)),
                                  PStr (Description (pdf ?e1)), PInt (Qty (pdf ?e1)),
                                  PFloat (Net_Unit_Price (pdf ?e1)),
                                  PFloat (Total_Amount (pdf ?e1)),
                                  PStr (SO_PO_Number (pdf ?e1)), PStr d, PStr c, PStr q, PStr a,
                                  PNum (score m)])
               (filter (\<lambda>row. hd row = cell_value (Number (pdf ?e1)))
                  (tl [map PStr headers, ?r1, ?r2]))
               (matches ?e1)"
    by (simp_all add: Let_def)
  from rows have "length (filter (\<lambda>row. hd row = cell_value (Number (pdf ?e1)))
                  (tl [map PStr headers, ?r1, ?r2])) = length (matches ?e1)"
    by (rule list_all2_lengthD)
  then have l: "length (filter (\<lambda>row. hd row = PStr ''1002'') [?r1, ?r2]) = 2"
    by (simp only: c list.sel entry.simps list.size) simp
  from n d w same l show ?thesis by simp
qed

text \<open>
  Claim C8. The header has twelve columns, and so has every row written for a match, but
  the row written for a record without a match has eleven values: the seven of the record
  and four empty strings, so the column \<^verbatim>\<open>Match Score\<close> has no value in it.
\<close>

theorem unmatched_row_has_eleven_values:
  "write_report [\<lparr>pdf = blank_record, matches = []\<rparr>]
     = Inr [map PStr headers,
            [PStr ''1002'', PStr ''Beta'', PStr ''Thing'', PInt 0, PFloat (Finite 0),
             PFloat (Finite 0), PStr [], PStr [], PStr [], PStr [], PStr []]]
   \<and> length headers = 12
   \<and> length (unmatched_row blank_record) = 11"
  by (simp add: write_report_def unmatched_row_def pdf_values_def cell_value_def
      blank_record_def headers_def)

end
